theory Spec2Isabelle
  imports Main "HOL-Library.Word" "HOL-Library.Sublist" "HOL-Library.AList"
begin

unbundle bit_operations_syntax

chapter \<open>AssetBundle: the archive encoder and the streaming decoder\<close>

text \<open>
  A shallow embedding of \<^verbatim>\<open>AssetBundle.ts\<close>: \<^verbatim>\<open>encodeAssetBundle\<close>,
  \<^verbatim>\<open>decodeAssetBundleStream\<close> with its closures \<^verbatim>\<open>readBytes\<close> and
  \<^verbatim>\<open>maybeReadMore\<close>, and \<^verbatim>\<open>decodeAssetBundle\<close>.

  JavaScript values are a datatype, thrown errors are the left summand of a sum type, the
  decoder's mutable variables form a record that is passed along, and the asynchronous
  generator is the list of the objects it yields together with the error that ended it, if
  any. A \<^verbatim>\<open>ReadableStream\<close> is the finite list of the chunks its reader delivers
  before it reports \<^verbatim>\<open>done\<close>.
\<close>

section \<open>Bytes, strings and the primitives of the platform\<close>

type_synonym byte = "8 word"

text \<open>A JavaScript string is a sequence of UTF-16 code units.\<close>

type_synonym jsstring = "16 word list"

definition lit :: "string \<Rightarrow> jsstring" where
  "lit s = map (\<lambda>c. of_nat (of_char c)) s"

subsection \<open>\<^verbatim>\<open>TextEncoder.encode\<close>\<close>

text \<open>
  The conversion of a string to scalar values pairs surrogates and replaces a lone one by
  U+FFFD; the scalar values are then written in UTF-8.
\<close>

fun code_points :: "jsstring \<Rightarrow> nat list" where
  "code_points [] = []"
| "code_points [u] = [if 0xD800 \<le> unat u \<and> unat u < 0xE000 then 0xFFFD else unat u]"
| "code_points (u # v # us) =
     (if 0xD800 \<le> unat u \<and> unat u < 0xDC00 \<and> 0xDC00 \<le> unat v \<and> unat v < 0xE000
      then (0x10000 + (unat u - 0xD800) * 0x400 + (unat v - 0xDC00)) # code_points us
      else (if 0xD800 \<le> unat u \<and> unat u < 0xE000 then 0xFFFD else unat u)
             # code_points (v # us))"

definition utf8_bytes :: "nat \<Rightarrow> byte list" where
  "utf8_bytes c =
     (if c < 0x80 then [of_nat c]
      else if c < 0x800 then [of_nat (0xC0 + c div 64), of_nat (0x80 + c mod 64)]
      else if c < 0x10000 then
        [of_nat (0xE0 + c div 4096), of_nat (0x80 + c div 64 mod 64), of_nat (0x80 + c mod 64)]
      else
        [of_nat (0xF0 + c div 262144), of_nat (0x80 + c div 4096 mod 64),
         of_nat (0x80 + c div 64 mod 64), of_nat (0x80 + c mod 64)])"

definition utf8_encode :: "jsstring \<Rightarrow> byte list" where
  "utf8_encode s = concat (map utf8_bytes (code_points s))"

subsection \<open>\<^verbatim>\<open>TextDecoder.decode\<close>\<close>

text \<open>
  The UTF-8 decoder of the Encoding standard, not fatal: \<open>cp\<close> is the code point under
  construction, \<open>needed\<close> the number of continuation bytes still expected, \<open>lo\<close> and
  \<open>hi\<close> the range allowed for the next one. An ill-formed sequence gives U+FFFD and the
  offending byte is read again as the start of a sequence.
\<close>

fun utf8_scan :: "nat \<Rightarrow> nat \<Rightarrow> nat \<Rightarrow> nat \<Rightarrow> byte list \<Rightarrow> nat list" where
  "utf8_scan cp needed lo hi [] = (if needed = 0 then [] else [0xFFFD])"
| "utf8_scan cp needed lo hi (b # bs) =
     (if needed = 0 then
        (if unat b < 0x80 then unat b # utf8_scan 0 0 0x80 0xBF bs
         else if 0xC2 \<le> unat b \<and> unat b \<le> 0xDF then utf8_scan (unat b - 0xC0) 1 0x80 0xBF bs
         else if 0xE0 \<le> unat b \<and> unat b \<le> 0xEF then
           utf8_scan (unat b - 0xE0) 2 (if unat b = 0xE0 then 0xA0 else 0x80)
             (if unat b = 0xED then 0x9F else 0xBF) bs
         else if 0xF0 \<le> unat b \<and> unat b \<le> 0xF4 then
           utf8_scan (unat b - 0xF0) 3 (if unat b = 0xF0 then 0x90 else 0x80)
             (if unat b = 0xF4 then 0x8F else 0xBF) bs
         else 0xFFFD # utf8_scan 0 0 0x80 0xBF bs)
      else if unat b < lo \<or> hi < unat b then 0xFFFD # utf8_scan 0 0 0x80 0xBF (b # bs)
      else if needed = 1 then (cp * 64 + (unat b - 0x80)) # utf8_scan 0 0 0x80 0xBF bs
      else utf8_scan (cp * 64 + (unat b - 0x80)) (needed - 1) 0x80 0xBF bs)"

definition utf16_units :: "nat \<Rightarrow> jsstring" where
  "utf16_units c =
     (if c < 0x10000 then [of_nat c]
      else [of_nat (0xD800 + (c - 0x10000) div 0x400), of_nat (0xDC00 + (c - 0x10000) mod 0x400)])"

text \<open>The module's decoder \<^verbatim>\<open>td = new TextDecoder()\<close> drops a leading byte order mark.\<close>

definition utf8_decode :: "byte list \<Rightarrow> jsstring" where
  "utf8_decode bs =
     concat (map utf16_units
       (case utf8_scan 0 0 0x80 0xBF bs of
          [] \<Rightarrow> []
        | c # cs \<Rightarrow> if c = 0xFEFF then cs else c # cs))"

subsection \<open>\<^verbatim>\<open>crypto.subtle.digest("sha-1", _)\<close>\<close>

text \<open>SHA-1 as in FIPS 180-4, on 32-bit words.\<close>

type_synonym sha1_state = "32 word \<times> 32 word \<times> 32 word \<times> 32 word \<times> 32 word"

definition rotl32 :: "nat \<Rightarrow> 32 word \<Rightarrow> 32 word" where
  "rotl32 n w = push_bit n w OR drop_bit (32 - n) w"

definition be32 :: "32 word \<Rightarrow> byte list" where
  "be32 w = [ucast (drop_bit 24 w), ucast (drop_bit 16 w), ucast (drop_bit 8 w), ucast w]"

fun be_words :: "byte list \<Rightarrow> 32 word list" where
  "be_words (a # b # c # d # bs) =
     (push_bit 24 (ucast a) OR push_bit 16 (ucast b) OR push_bit 8 (ucast c) OR ucast d)
       # be_words bs"
| "be_words bs = []"

definition sha1_pad :: "byte list \<Rightarrow> byte list" where
  "sha1_pad m =
     m @ [0x80] @ replicate ((119 - length m mod 64) mod 64) 0
       @ be32 (of_nat (8 * length m div 2 ^ 32)) @ be32 (of_nat (8 * length m))"

text \<open>The message schedule, newest word first.\<close>

fun sha1_expand :: "nat \<Rightarrow> 32 word list \<Rightarrow> 32 word list" where
  "sha1_expand 0 ws = ws"
| "sha1_expand (Suc n) ws =
     sha1_expand n (rotl32 1 (ws ! 2 XOR ws ! 7 XOR ws ! 13 XOR ws ! 15) # ws)"

text \<open>One round of phase \<open>p\<close> (rounds \<open>20 * p\<close> to \<open>20 * p + 19\<close>).\<close>

fun sha1_round :: "nat \<Rightarrow> sha1_state \<Rightarrow> 32 word \<Rightarrow> sha1_state" where
  "sha1_round p (a, b, c, d, e) w =
     (rotl32 5 a
        + (if p = 0 then (b AND c) OR (NOT b AND d)
           else if p = 2 then (b AND c) OR (b AND d) OR (c AND d)
           else b XOR c XOR d)
        + e
        + (if p = 0 then 0x5A827999 else if p = 1 then 0x6ED9EBA1
           else if p = 2 then 0x8F1BBCDC else 0xCA62C1D6)
        + w,
      a, rotl32 30 b, c, d)"

definition sha1_rounds :: "sha1_state \<Rightarrow> 32 word list \<Rightarrow> sha1_state" where
  "sha1_rounds h ws =
     foldl (sha1_round 3)
       (foldl (sha1_round 2)
          (foldl (sha1_round 1)
             (foldl (sha1_round 0) h (take 20 ws))
             (take 20 (drop 20 ws)))
          (take 20 (drop 40 ws)))
       (take 20 (drop 60 ws))"

fun sha1_add :: "sha1_state \<Rightarrow> sha1_state \<Rightarrow> sha1_state" where
  "sha1_add (h0, h1, h2, h3, h4) (a, b, c, d, e) = (h0 + a, h1 + b, h2 + c, h3 + d, h4 + e)"

definition sha1_block :: "sha1_state \<Rightarrow> byte list \<Rightarrow> sha1_state" where
  "sha1_block h blk = sha1_add h (sha1_rounds h (rev (sha1_expand 64 (rev (be_words blk)))))"

fun sha1_blocks :: "nat \<Rightarrow> sha1_state \<Rightarrow> byte list \<Rightarrow> sha1_state" where
  "sha1_blocks 0 h bs = h"
| "sha1_blocks (Suc n) h bs = sha1_blocks n (sha1_block h (take 64 bs)) (drop 64 bs)"

fun sha1_out :: "sha1_state \<Rightarrow> byte list" where
  "sha1_out (a, b, c, d, e) = be32 a @ be32 b @ be32 c @ be32 d @ be32 e"

definition sha1 :: "byte list \<Rightarrow> byte list" where
  "sha1 m =
     sha1_out (sha1_blocks (length (sha1_pad m) div 64)
       (0x67452301, 0xEFCDAB89, 0x98BADCFE, 0x10325476, 0xC3D2E1F0) (sha1_pad m))"

subsection \<open>Typed arrays\<close>

text \<open>
  \<^verbatim>\<open>new Uint16Array([n])\<close> and \<^verbatim>\<open>new Uint32Array([n])\<close> keep \<open>n\<close> modulo
  \<open>2 ^ 16\<close> and \<open>2 ^ 32\<close>; as a part of a Blob the array gives its bytes in the byte order
  of the platform, which is little-endian. \<^verbatim>\<open>new Uint16Array(buffer)[0]\<close> reads the
  first element back.
\<close>

fun le_bytes :: "nat \<Rightarrow> nat \<Rightarrow> byte list" where
  "le_bytes 0 n = []"
| "le_bytes (Suc k) n = of_nat (n mod 256) # le_bytes k (n div 256)"

fun le_value :: "byte list \<Rightarrow> nat" where
  "le_value [] = 0"
| "le_value (b # bs) = unat b + 256 * le_value bs"

definition Uint16Array :: "nat \<Rightarrow> byte list" where
  "Uint16Array n = le_bytes 2 n"

definition Uint32Array :: "nat \<Rightarrow> byte list" where
  "Uint32Array n = le_bytes 4 n"

definition Uint16Array_first :: "byte list \<Rightarrow> nat" where
  "Uint16Array_first buffer = le_value (take 2 buffer)"

definition Uint32Array_first :: "byte list \<Rightarrow> nat" where
  "Uint32Array_first buffer = le_value (take 4 buffer)"

text \<open>
  \<^verbatim>\<open>xs.every((v, i) => ys[i] === v)\<close>: an index beyond \<open>ys\<close> reads
  \<^verbatim>\<open>undefined\<close>, which equals no byte.
\<close>

fun every_index :: "nat \<Rightarrow> byte list \<Rightarrow> byte list \<Rightarrow> bool" where
  "every_index i [] ys = True"
| "every_index i (v # vs) ys = ((i < length ys \<and> ys ! i = v) \<and> every_index (Suc i) vs ys)"

definition every_equal :: "byte list \<Rightarrow> byte list \<Rightarrow> bool" where
  "every_equal xs ys = every_index 0 xs ys"

section \<open>Values and errors\<close>

text \<open>
  The values that the code handles. A \<open>Uint8Array\<close> is a view: its underlying
  \<^verbatim>\<open>ArrayBuffer\<close>, its \<^verbatim>\<open>byteOffset\<close> and its \<^verbatim>\<open>byteLength\<close>. A
  \<open>Blob\<close> is its content and its \<^verbatim>\<open>type\<close>.
\<close>

datatype js_value =
    Undefined
  | JString jsstring
  | ArrayBuffer "byte list"
  | SharedArrayBuffer "byte list"
  | Uint8Array "byte list" nat nat
  | Blob "byte list" jsstring

text \<open>
  The \<^verbatim>\<open>type\<close> of the Blob that \<^verbatim>\<open>new Blob(parts, { type })\<close> makes: the
  option in ASCII lower case when all its characters lie between U+0020 and U+007E, the
  empty string otherwise.
\<close>

definition ascii_lower :: "16 word \<Rightarrow> 16 word" where
  "ascii_lower c = (if 0x41 \<le> unat c \<and> unat c \<le> 0x5A then c + 0x20 else c)"

definition blob_type :: "jsstring \<Rightarrow> jsstring" where
  "blob_type t =
     (if list_all (\<lambda>c. 0x20 \<le> unat c \<and> unat c \<le> 0x7E) t then map ascii_lower t else [])"

text \<open>The bytes that a view shows.\<close>

definition view_bytes :: "byte list \<Rightarrow> nat \<Rightarrow> nat \<Rightarrow> byte list" where
  "view_bytes buffer byteOffset byteLength = take byteLength (drop byteOffset buffer)"

text \<open>
  The errors, by the message of the \<^verbatim>\<open>Error\<close> thrown; \<open>TypeError\<close> is the one
  that the runtime throws for a property read on \<^verbatim>\<open>undefined\<close> and for a call of
  something that is not a function.
\<close>

datatype error =
    DuplicateFilename jsstring
  | CouldNotConvert jsstring
  | HashNot20Bytes
  | UnexpectedEndOfFile
  | InvalidHeader
  | HashMismatch jsstring
  | TypeError

definition bindE :: "error + 'a \<Rightarrow> ('a \<Rightarrow> error + 'b) \<Rightarrow> error + 'b" where
  "bindE m f = (case m of Inl e \<Rightarrow> Inl e | Inr x \<Rightarrow> f x)"

text \<open>\<^verbatim>\<open>"BUNDLE1"\<close>\<close>

definition HEAD :: "byte list" where
  "HEAD = [0x42, 0x55, 0x4e, 0x44, 0x4c, 0x45, 0x31]"

section \<open>Writing\<close>

record AssetBundleInput =
  name :: jsstring
  type :: "jsstring option"
  data :: js_value

text \<open>
  The value of \<^verbatim>\<open>buffer\<close> and the value of \<^verbatim>\<open>type\<close> after the conditional
  expression of lines 47 to 51. A string is encoded; anything with a \<^verbatim>\<open>buffer\<close>
  property gives that property; anything with an \<^verbatim>\<open>arrayBuffer\<close> method goes through
  \<^verbatim>\<open>type ??= await data.arrayBuffer()\<close>, which assigns to \<^verbatim>\<open>type\<close> and
  evaluates to the content only when \<^verbatim>\<open>type\<close> was undefined, and to \<^verbatim>\<open>type\<close>
  itself otherwise; any other value is taken as it is.
\<close>

definition resolve :: "AssetBundleInput \<Rightarrow> js_value \<times> js_value" where
  "resolve file =
     (let type0 = (case type file of None \<Rightarrow> Undefined | Some t \<Rightarrow> JString t) in
      case data file of
        JString s \<Rightarrow> (ArrayBuffer (utf8_encode s), type0)
      | Uint8Array buffer byteOffset byteLength \<Rightarrow> (ArrayBuffer buffer, type0)
      | Blob content blobType \<Rightarrow>
          (if type0 = Undefined then (ArrayBuffer content, ArrayBuffer content)
           else (type0, type0))
      | v \<Rightarrow> (v, type0))"

text \<open>The string that \<^verbatim>\<open>TextEncoder.encode\<close> makes of its argument.\<close>

fun to_string :: "js_value \<Rightarrow> jsstring" where
  "to_string Undefined = []"
| "to_string (JString s) = s"
| "to_string (ArrayBuffer b) = lit ''[object ArrayBuffer]''"
| "to_string (SharedArrayBuffer b) = lit ''[object SharedArrayBuffer]''"
| "to_string (Uint8Array b off len) = lit ''[object Uint8Array]''"
| "to_string (Blob b t) = lit ''[object Blob]''"

text \<open>
  The loop over \<^verbatim>\<open>files\<close>, with the set \<^verbatim>\<open>seenFilenames\<close> and the list
  \<^verbatim>\<open>chunks\<close> of the parts pushed so far.
\<close>

fun encodeFiles ::
  "AssetBundleInput list \<Rightarrow> jsstring set \<Rightarrow> byte list list \<Rightarrow> error + byte list list"
where
  "encodeFiles [] seenFilenames chunks = Inr chunks"
| "encodeFiles (file # files) seenFilenames chunks =
     (if name file \<in> seenFilenames then Inl (DuplicateFilename (name file))
      else
        (case resolve file of
           (ArrayBuffer buffer, type1) \<Rightarrow>
             (let nameBuffer = utf8_encode (name file);
                  typeBuffer = utf8_encode (to_string type1);
                  hash = sha1 buffer
              in if length hash \<noteq> 20 then Inl HashNot20Bytes
                 else encodeFiles files (insert (name file) seenFilenames)
                        (chunks @ [Uint16Array (length nameBuffer), utf8_encode (name file),
                                   Uint16Array (length typeBuffer), typeBuffer,
                                   Uint32Array (length buffer), buffer, hash]))
         | (v, type1) \<Rightarrow> Inl (CouldNotConvert (name file))))"

text \<open>The content of the Blob returned, whose type is \<^verbatim>\<open>application/asset-bundle\<close>.\<close>

definition encodeAssetBundle :: "AssetBundleInput list \<Rightarrow> error + byte list" where
  "encodeAssetBundle files =
     (case encodeFiles files {} [] of
        Inl e \<Rightarrow> Inl e
      | Inr chunks \<Rightarrow> Inr (concat (HEAD # chunks)))"

section \<open>Reading\<close>

record AssetBundleOutput =
  out_name :: jsstring
  out_data :: js_value

text \<open>
  The variables of \<^verbatim>\<open>decodeAssetBundleStream\<close> that its closures share:
  \<open>reader\<close> holds the chunks that the stream has not delivered yet.
\<close>

record decoder =
  reader :: "byte list list"
  chunks :: "byte list list"
  chunk :: nat
  cursor :: nat
  running :: bool

text \<open>What is left to read: a bound on the work that remains.\<close>

definition remaining :: "decoder \<Rightarrow> nat" where
  "remaining s =
     (if chunk s < length (chunks s)
      then (length (chunks s ! chunk s) - cursor s)
             + sum_list (map length (drop (Suc (chunk s)) (chunks s)))
             + (length (chunks s) - chunk s)
      else 0)
     + sum_list (map length (reader s)) + length (reader s)"

lemma sum_length_drop:
  "i < length xs \<Longrightarrow>
     sum_list (map length (drop i xs)) = length (xs ! i) + sum_list (map length (drop (Suc i) xs))"
  by (simp flip: Cons_nth_drop_Suc)

text \<open>\<^verbatim>\<open>await reader.read()\<close> followed by \<^verbatim>\<open>chunks.push(read.value)\<close>.\<close>

definition pull :: "decoder \<Rightarrow> decoder" where
  "pull s = s\<lparr>chunks := chunks s @ [hd (reader s)], reader := tl (reader s)\<rparr>"

text \<open>The \<^verbatim>\<open>while (bytes < n)\<close> loop of \<^verbatim>\<open>readBytes\<close>.\<close>

function readLoop :: "nat \<Rightarrow> nat \<Rightarrow> decoder \<Rightarrow> error + decoder" where
  "readLoop n bytes s =
     (if bytes < n then
        (if length (chunks s) \<le> chunk s \<and> reader s = [] then Inl UnexpectedEndOfFile
         else
           (let s1 = (if length (chunks s) \<le> chunk s then pull s else s) in
            if length (chunks s1) \<le> chunk s1 then Inl TypeError
            else
              (let chunkBytes = length (chunks s1 ! chunk s1) - cursor s1 in
               if chunkBytes + bytes > n then Inr (s1\<lparr>cursor := cursor s1 + (n - bytes)\<rparr>)
               else readLoop n (bytes + chunkBytes) (s1\<lparr>chunk := chunk s1 + 1, cursor := 0\<rparr>))))
      else Inr s)"
  by pat_completeness auto
termination
proof (relation "measure (\<lambda>(n, bytes, s). remaining s)", goal_cases)
  case 1
  show ?case by simp
next
  case (2 n bytes s s1 chunkBytes)
  have less: "remaining (t\<lparr>chunk := chunk t + 1, cursor := 0\<rparr>) < remaining t"
    if "chunk t < length (chunks t)" for t
    using that by (auto simp: remaining_def sum_length_drop [of "Suc (chunk t)"])
  have "remaining s1 \<le> remaining s"
    using 2 by (cases "reader s") (auto simp: remaining_def pull_def nth_append)
  moreover have "remaining (s1\<lparr>chunk := chunk s1 + 1, cursor := 0\<rparr>) < remaining s1"
    using 2 by (intro less) simp
  ultimately show ?case by simp
qed

lemma readLoop_remaining_le: "readLoop n bytes s = Inr s' \<Longrightarrow> remaining s' \<le> remaining s"
proof (induction n bytes s rule: readLoop.induct)
  case (1 n bytes s)
  show ?case
  proof (cases "bytes < n")
    case False
    with "1.prems" show ?thesis by simp
  next
    case True
    define s1 where "s1 = (if length (chunks s) \<le> chunk s then pull s else s)"
    have le: "remaining s1 \<le> remaining s"
      using True "1.prems"
      by (cases "reader s") (auto simp: s1_def remaining_def pull_def nth_append split: if_splits)
    have inside: "chunk s1 < length (chunks s1)"
      using True "1.prems" by (auto simp: s1_def Let_def split: if_splits)
    have notend: "\<not> (length (chunks s) \<le> chunk s \<and> reader s = [])"
      using True "1.prems" by (auto split: if_splits)
    show ?thesis
    proof (cases "length (chunks s1 ! chunk s1) - cursor s1 + bytes > n")
      case True
      with \<open>bytes < n\<close> "1.prems" notend inside have "s' = s1\<lparr>cursor := cursor s1 + (n - bytes)\<rparr>"
        by (simp add: s1_def Let_def split: if_splits)
      with inside have "remaining s' \<le> remaining s1"
        by (simp add: remaining_def)
      with le show ?thesis by simp
    next
      case False
      with \<open>bytes < n\<close> "1.prems" notend inside
      have call: "readLoop n (bytes + (length (chunks s1 ! chunk s1) - cursor s1))
                    (s1\<lparr>chunk := chunk s1 + 1, cursor := 0\<rparr>) = Inr s'"
        by (simp add: s1_def Let_def split: if_splits)
      have "remaining s' \<le> remaining (s1\<lparr>chunk := chunk s1 + 1, cursor := 0\<rparr>)"
        using "1.IH" [OF \<open>bytes < n\<close> notend s1_def _ refl _ call] inside False by simp
      moreover have "remaining (s1\<lparr>chunk := chunk s1 + 1, cursor := 0\<rparr>) < remaining s1"
        using inside by (auto simp: remaining_def sum_length_drop [of "Suc (chunk s1)"])
      ultimately show ?thesis using le by simp
    qed
  qed
qed

lemma readLoop_remaining_less:
  assumes "readLoop n bytes s = Inr s'" and "bytes < n"
  shows "remaining s' < remaining s"
proof -
  define s1 where "s1 = (if length (chunks s) \<le> chunk s then pull s else s)"
  have le: "remaining s1 \<le> remaining s"
    using assms
    by (cases "reader s") (auto simp: s1_def remaining_def pull_def nth_append split: if_splits)
  have inside: "chunk s1 < length (chunks s1)"
    using assms by (auto simp: s1_def Let_def split: if_splits)
  have notend: "\<not> (length (chunks s) \<le> chunk s \<and> reader s = [])"
    using assms by (auto split: if_splits)
  show ?thesis
  proof (cases "length (chunks s1 ! chunk s1) - cursor s1 + bytes > n")
    case True
    with assms notend inside have "s' = s1\<lparr>cursor := cursor s1 + (n - bytes)\<rparr>"
      by (simp add: s1_def Let_def split: if_splits)
    with inside True assms(2) have "remaining s' < remaining s1"
      by (simp add: remaining_def)
    with le show ?thesis by simp
  next
    case False
    with assms notend inside
    have "readLoop n (bytes + (length (chunks s1 ! chunk s1) - cursor s1))
            (s1\<lparr>chunk := chunk s1 + 1, cursor := 0\<rparr>) = Inr s'"
      by (simp add: s1_def Let_def split: if_splits)
    then have "remaining s' \<le> remaining (s1\<lparr>chunk := chunk s1 + 1, cursor := 0\<rparr>)"
      by (rule readLoop_remaining_le)
    moreover have "remaining (s1\<lparr>chunk := chunk s1 + 1, cursor := 0\<rparr>) < remaining s1"
      using inside by (auto simp: remaining_def sum_length_drop [of "Suc (chunk s1)"])
    ultimately show ?thesis using le by simp
  qed
qed

declare readLoop.simps [simp del]

text \<open>
  What \<^verbatim>\<open>readBytes\<close> returns for the bytes it has gathered: the Blob made by
  \<^verbatim>\<open>new Blob([arrayBuffer], { type: blobType })\<close> when \<^verbatim>\<open>blobType\<close> is a string
  that is not empty, an ArrayBuffer when it is \<^verbatim>\<open>false\<close> (\<open>None\<close>) or the empty
  string.
\<close>

definition wrap :: "jsstring option \<Rightarrow> byte list \<Rightarrow> js_value" where
  "wrap blobType arrayBuffer =
     (case blobType of
        None \<Rightarrow> ArrayBuffer arrayBuffer
      | Some t \<Rightarrow>
          if t = [] then ArrayBuffer arrayBuffer else Blob arrayBuffer (blob_type t))"

text \<open>\<^verbatim>\<open>xs.slice(start, end)\<close> of a typed array, for indices that are not negative.\<close>

definition slice_of :: "byte list \<Rightarrow> nat \<Rightarrow> nat \<Rightarrow> byte list" where
  "slice_of xs start end = drop start (take end xs)"

text \<open>
  \<^verbatim>\<open>readBytes(n, blobType)\<close>. After the loop the bytes are cut out of the retained
  chunks in one of three ways; \<^verbatim>\<open>chunks[i]\<close> beyond the end of \<^verbatim>\<open>chunks\<close> is
  \<^verbatim>\<open>undefined\<close>, and its \<^verbatim>\<open>slice\<close> is a \<open>TypeError\<close>.
\<close>

definition readBytes :: "nat \<Rightarrow> jsstring option \<Rightarrow> decoder \<Rightarrow> error + (js_value \<times> decoder)" where
  "readBytes n blobType s =
     (let startChunk = chunk s; startCursor = cursor s in
      case readLoop n 0 s of
        Inl e \<Rightarrow> Inl e
      | Inr s' \<Rightarrow>
          if startChunk = chunk s' then
            (if startChunk < length (chunks s')
             then Inr (wrap blobType (slice_of (chunks s' ! startChunk) startCursor (cursor s')), s')
             else Inl TypeError)
          else if startChunk + 1 = chunk s' \<and> cursor s' = 0 then
            (if startChunk < length (chunks s')
             then Inr (wrap blobType (drop startCursor (chunks s' ! startChunk)), s')
             else Inl TypeError)
          else
            (if startChunk < length (chunks s') \<and> chunk s' < length (chunks s')
             then Inr (wrap blobType
                        (drop startCursor (chunks s' ! startChunk)
                           @ concat (drop (startChunk + 1) (take (chunk s') (chunks s')))
                           @ slice_of (chunks s' ! chunk s') 0 (cursor s')), s')
             else Inl TypeError))"

definition maybeReadMore :: "decoder \<Rightarrow> decoder" where
  "maybeReadMore s =
     (if cursor s = 0 \<and> length (chunks s) \<le> chunk s then
        (if reader s = [] then s\<lparr>running := False\<rparr>
         else (pull s)\<lparr>chunk := chunk s + 1, cursor := 0\<rparr>)
      else s)"

text \<open>The bytes of a buffer or of a Blob (\<^verbatim>\<open>new Uint8Array(b)\<close>, \<^verbatim>\<open>b.arrayBuffer()\<close>).\<close>

fun content :: "js_value \<Rightarrow> byte list" where
  "content (ArrayBuffer b) = b"
| "content (SharedArrayBuffer b) = b"
| "content (Blob b t) = b"
| "content (Uint8Array b off len) = view_bytes b off len"
| "content v = []"

text \<open>
  The check of lines 184 to 192: the error it throws, if any. A \<^verbatim>\<open>data\<close> that is
  not a Blob has no \<^verbatim>\<open>arrayBuffer\<close> method to call.
\<close>

definition verifyHash :: "bool \<Rightarrow> jsstring \<Rightarrow> js_value \<Rightarrow> js_value \<Rightarrow> error option" where
  "verifyHash verify entryName blob hash =
     (if verify then
        (case blob of
           Blob payload t \<Rightarrow>
             if \<not> every_equal (content hash) (sha1 payload) then Some (HashMismatch entryName)
             else None
         | v \<Rightarrow> Some TypeError)
      else None)"

text \<open>
  The body of the \<^verbatim>\<open>while (running)\<close> loop up to the \<^verbatim>\<open>yield\<close>: the
  object to yield and the state after it.
\<close>

definition decodeEntry :: "bool \<Rightarrow> decoder \<Rightarrow> error + (AssetBundleOutput \<times> decoder)" where
  "decodeEntry verify s =
     bindE (readBytes 2 None s) (\<lambda>(b1, s1).
     let nameLength = Uint16Array_first (content b1) in
     bindE (readBytes nameLength None s1) (\<lambda>(b2, s2).
     let name = utf8_decode (content b2) in
     bindE (readBytes 2 None s2) (\<lambda>(b3, s3).
     let typeLength = Uint16Array_first (content b3) in
     bindE (if typeLength = 0 then Inr (lit ''application/octet-stream'', s3)
            else bindE (readBytes typeLength None s3) (\<lambda>(b4, s4).
                   Inr (utf8_decode (content b4), s4))) (\<lambda>(type, s4).
     bindE (readBytes 4 None s4) (\<lambda>(b5, s5).
     let size = Uint32Array_first (content b5) in
     bindE (readBytes size (Some type) s5) (\<lambda>(data, s6).
     bindE (readBytes 20 None s6) (\<lambda>(hash, s7).
     case verifyHash verify name data hash of
       Some e \<Rightarrow> Inl e
     | None \<Rightarrow> Inr (\<lparr>out_name = name, out_data = data\<rparr>, s7))))))))"

lemma readBytes_remaining_le: "readBytes n blobType s = Inr (v, s') \<Longrightarrow> remaining s' \<le> remaining s"
  by (auto simp: readBytes_def Let_def split: sum.splits if_splits dest: readLoop_remaining_le)

lemma readBytes_remaining_less:
  "readBytes n blobType s = Inr (v, s') \<Longrightarrow> 0 < n \<Longrightarrow> remaining s' < remaining s"
  by (auto simp: readBytes_def Let_def split: sum.splits if_splits dest: readLoop_remaining_less)

lemma maybeReadMore_remaining: "remaining (maybeReadMore s) \<le> remaining s"
  by (cases "reader s") (auto simp: maybeReadMore_def remaining_def pull_def)

lemma bindE_Inr: "bindE m f = Inr y \<longleftrightarrow> (\<exists>x. m = Inr x \<and> f x = Inr y)"
  by (cases m) (simp_all add: bindE_def)

lemma decodeEntry_remaining:
  assumes "decodeEntry verify s = Inr (file, s')"
  shows "remaining s' < remaining s"
proof -
  from assms obtain b1 s1 where r1: "readBytes 2 None s = Inr (b1, s1)"
    by (auto simp: decodeEntry_def bindE_Inr)
  then have "remaining s1 < remaining s"
    by (rule readBytes_remaining_less) simp
  moreover from assms r1 have "remaining s' \<le> remaining s1"
    by (auto simp: decodeEntry_def bindE_Inr Let_def
          split: if_splits option.splits
          dest!: readBytes_remaining_le)
  ultimately show ?thesis by simp
qed

text \<open>
  The \<^verbatim>\<open>while (running)\<close> loop: the objects yielded, and the error thrown if the
  generator ends with one.
\<close>

function decodeLoop :: "bool \<Rightarrow> decoder \<Rightarrow> AssetBundleOutput list \<times> error option" where
  "decodeLoop verify s =
     (if running s then
        (case decodeEntry verify s of
           Inl e \<Rightarrow> ([], Some e)
         | Inr (file, s') \<Rightarrow>
             (case decodeLoop verify (maybeReadMore s') of
                (files, result) \<Rightarrow> (file # files, result)))
      else ([], None))"
  by pat_completeness auto
termination
proof (relation "measure (\<lambda>(verify, s). remaining s)", goal_cases)
  case 1
  show ?case by simp
next
  case (2 verify s x f s')
  then have "remaining s' < remaining s"
    by (auto dest: decodeEntry_remaining)
  with maybeReadMore_remaining [of s'] show ?case by simp
qed

declare decodeLoop.simps [simp del]

text \<open>
  \<^verbatim>\<open>decodeAssetBundleStream(input, options)\<close>, for the chunks that the stream of
  \<^verbatim>\<open>input\<close> delivers; \<open>options\<close> is the \<^verbatim>\<open>verify\<close> member, \<open>None\<close> when
  it is left out.
\<close>

definition decodeAssetBundleStream ::
  "byte list list \<Rightarrow> bool option \<Rightarrow> AssetBundleOutput list \<times> error option" where
  "decodeAssetBundleStream input options =
     (let verify = (case options of None \<Rightarrow> True | Some v \<Rightarrow> v) in
      case input of
        [] \<Rightarrow> ([], Some UnexpectedEndOfFile)
      | firstRead # rest \<Rightarrow>
          (case readBytes 7 None
                  \<lparr>reader = rest, chunks = [firstRead], chunk = 0, cursor = 0, running = True\<rparr> of
             Inl e \<Rightarrow> ([], Some e)
           | Inr (head, s) \<Rightarrow>
               if \<not> every_equal HEAD (take 7 (content head)) then ([], Some InvalidHeader)
               else decodeLoop verify s))"

text \<open>
  \<^verbatim>\<open>decodeAssetBundle(buffer)\<close>: the Map, as the list of its entries in the order of
  first insertion, or the error that the generator threw.
\<close>

definition decodeAssetBundle :: "byte list list \<Rightarrow> error + (jsstring \<times> js_value) list" where
  "decodeAssetBundle buffer =
     (case decodeAssetBundleStream buffer None of
        (files, Some e) \<Rightarrow> Inl e
      | (files, None) \<Rightarrow>
          Inr (foldl (\<lambda>map file. AList.update (out_name file) (out_data file) map) [] files))"


section \<open>Archives as lists of entries\<close>

text \<open>
  The vocabulary in which the properties of the codec are stated. An entry of an archive is
  its four fields as they lie in the file; \<open>layout\<close> is the byte layout of one entry,
  an archive is \<open>HEAD\<close> followed by the layouts of its entries.
\<close>

record entry =
  e_name :: "byte list"
  e_type :: "byte list"
  e_payload :: "byte list"
  e_digest :: "byte list"

definition layout :: "entry \<Rightarrow> byte list" where
  "layout e =
     Uint16Array (length (e_name e)) @ e_name e
       @ Uint16Array (length (e_type e)) @ e_type e
       @ Uint32Array (length (e_payload e)) @ e_payload e
       @ e_digest e"

text \<open>The lengths that the two-byte and four-byte length fields can hold.\<close>

definition fits :: "entry \<Rightarrow> bool" where
  "fits e \<longleftrightarrow>
     length (e_name e) < 65536 \<and> length (e_type e) < 65536
       \<and> length (e_payload e) < 4294967296 \<and> length (e_digest e) = 20"

text \<open>
  What the decoder makes of an entry: the media type, the object it yields, and the error
  of its digest check, if any.
\<close>

definition media :: "entry \<Rightarrow> jsstring" where
  "media e = (if e_type e = [] then lit ''application/octet-stream'' else utf8_decode (e_type e))"

definition decoded :: "entry \<Rightarrow> AssetBundleOutput" where
  "decoded e = \<lparr>out_name = utf8_decode (e_name e), out_data = wrap (Some (media e)) (e_payload e)\<rparr>"

definition check :: "bool \<Rightarrow> entry \<Rightarrow> error option" where
  "check verify e =
     verifyHash verify (utf8_decode (e_name e)) (wrap (Some (media e)) (e_payload e))
       (ArrayBuffer (e_digest e))"

text \<open>The objects yielded for a list of entries, up to the first whose check fails.\<close>

fun walk :: "bool \<Rightarrow> entry list \<Rightarrow> AssetBundleOutput list \<times> error option" where
  "walk verify [] = ([], None)"
| "walk verify (e # es) =
     (case check verify e of
        Some err \<Rightarrow> ([], Some err)
      | None \<Rightarrow> (case walk verify es of (files, result) \<Rightarrow> (decoded e # files, result)))"

text \<open>
  The state of the decoder while its only retained chunk is \<open>pre @ suf\<close> and the cursor
  stands behind \<open>pre\<close>, and the state once it has consumed that chunk to its end; \<open>r\<close>
  is what the stream has not delivered yet.
\<close>

definition sst :: "byte list list \<Rightarrow> byte list \<Rightarrow> byte list \<Rightarrow> decoder" where
  "sst r pre suf =
     \<lparr>reader = r, chunks = [pre @ suf], chunk = 0, cursor = length pre, running = True\<rparr>"

definition fin :: "byte list list \<Rightarrow> byte list \<Rightarrow> decoder" where
  "fin r bs = \<lparr>reader = r, chunks = [bs], chunk = 1, cursor = 0, running = True\<rparr>"

text \<open>What the encoder does with a file: whether line 53 accepts the buffer, and the entry that
  lines 56 to 69 write for it, as the fields and as the parts pushed.\<close>

definition convertible :: "AssetBundleInput \<Rightarrow> bool" where
  "convertible file = (case fst (resolve file) of ArrayBuffer buffer \<Rightarrow> True | v \<Rightarrow> False)"

definition wire :: "AssetBundleInput \<Rightarrow> entry" where
  "wire file =
     \<lparr>e_name = utf8_encode (name file),
      e_type = utf8_encode (to_string (snd (resolve file))),
      e_payload = content (fst (resolve file)),
      e_digest = sha1 (content (fst (resolve file)))\<rparr>"

definition parts :: "entry \<Rightarrow> byte list list" where
  "parts e =
     [Uint16Array (length (e_name e)), e_name e, Uint16Array (length (e_type e)), e_type e,
      Uint32Array (length (e_payload e)), e_payload e, e_digest e]"

text \<open>The archive that \<^verbatim>\<open>encodeAssetBundle\<close> returns for two files named \<open>a\<close> and \<open>b\<close>
  with empty payloads and no type: the header, and for each file 29 bytes that end with the
  SHA-1 digest of the empty payload. The first file ends at offset 36.\<close>

definition two_files :: "byte list" where
  "two_files =
     [0x42, 0x55, 0x4e, 0x44, 0x4c, 0x45, 0x31,
      1, 0, 0x61, 0, 0, 0, 0, 0, 0,
      218, 57, 163, 238, 94, 107, 75, 13, 50, 85,
      191, 239, 149, 96, 24, 144, 175, 216, 7, 9,
      1, 0, 0x62, 0, 0, 0, 0, 0, 0,
      218, 57, 163, 238, 94, 107, 75, 13, 50, 85,
      191, 239, 149, 96, 24, 144, 175, 216, 7, 9]"

definition empty_file :: "byte \<Rightarrow> entry" where
  "empty_file c = \<lparr>e_name = [c], e_type = [], e_payload = [], e_digest = sha1 []\<rparr>"

text \<open>The identity on 32-bit words, written so that rewriting with it reduces a numeral
  modulo \<open>2 ^ 32\<close>.\<close>

definition norm32 :: "32 word \<Rightarrow> 32 word" where
  "norm32 w = of_nat (unat w)"

text \<open>A file whose name is 65536 letters \<open>a\<close>, with an empty payload and no type.\<close>

definition long_name :: AssetBundleInput where
  "long_name = \<lparr>name = replicate 65536 0x61, type = None, data = JString []\<rparr>"

text \<open>The bytes that the caller supplies as the payload of a file, the payload shapes for
  which the round trip is stated (a string, an \<^verbatim>\<open>ArrayBuffer\<close>, a \<^verbatim>\<open>Uint8Array\<close>
  that covers its buffer), and the object that the round trip should give back for a file.\<close>

fun supplied :: "js_value \<Rightarrow> byte list" where
  "supplied (JString s) = utf8_encode s"
| "supplied (ArrayBuffer b) = b"
| "supplied (SharedArrayBuffer b) = b"
| "supplied (Uint8Array b byteOffset byteLength) = view_bytes b byteOffset byteLength"
| "supplied (Blob b t) = b"
| "supplied Undefined = []"

fun plain :: "js_value \<Rightarrow> bool" where
  "plain (JString s) = True"
| "plain (ArrayBuffer b) = True"
| "plain (Uint8Array b byteOffset byteLength) = (byteOffset = 0 \<and> byteLength = length b)"
| "plain v = False"

definition expected :: "AssetBundleInput \<Rightarrow> AssetBundleOutput" where
  "expected file =
     \<lparr>out_name = name file,
      out_data = Blob (supplied (data file))
        (case type file of
           None \<Rightarrow> lit ''application/octet-stream''
         | Some t \<Rightarrow> if t = [] then lit ''application/octet-stream'' else t)\<rparr>"

definition round_trips :: "AssetBundleInput \<Rightarrow> bool" where
  "round_trips file \<longleftrightarrow>
     plain (data file)
     \<and> length (utf8_encode (name file)) < 65536
     \<and> length (supplied (data file)) < 4294967296
     \<and> utf8_decode (utf8_encode (name file)) = name file
     \<and> (case type file of
          None \<Rightarrow> True
        | Some t \<Rightarrow>
            length (utf8_encode t) < 65536 \<and> utf8_decode (utf8_encode t) = t
              \<and> blob_type t = t)"

text \<open>A file whose name is a lone surrogate, and the entry written for it: the name
  field holds U+FFFD.\<close>

definition lone_surrogate :: AssetBundleInput where
  "lone_surrogate = \<lparr>name = [0xD800], type = None, data = JString []\<rparr>"

definition replaced :: entry where
  "replaced = \<lparr>e_name = [0xEF, 0xBF, 0xBD], e_type = [], e_payload = [], e_digest = sha1 []\<rparr>"

text \<open>Valid archives. An entry is \<open>typed\<close> when the media type that the decoder makes
  of it is not the empty string, so that its payload is yielded as a Blob; its digest is in
  order when the comparison of line 189 accepts it. An archive is valid when it is the
  header followed by the layouts of entries that fit their length fields, are typed and
  have their digests in order.\<close>

definition typed :: "entry \<Rightarrow> bool" where
  "typed e \<longleftrightarrow> media e \<noteq> []"

definition digest_ok :: "entry \<Rightarrow> bool" where
  "digest_ok e \<longleftrightarrow> every_equal (e_digest e) (sha1 (e_payload e))"

definition valid :: "entry \<Rightarrow> bool" where
  "valid e \<longleftrightarrow> fits e \<and> typed e \<and> digest_ok e"

definition archive :: "entry list \<Rightarrow> byte list" where
  "archive es = HEAD @ concat (map layout es)"

text \<open>The offset in \<open>archive es\<close> of the first payload byte of entry \<open>k\<close>, and an entry
  with payload byte \<open>i\<close> replaced by \<open>b\<close>.\<close>

definition payload_offset :: "entry list \<Rightarrow> nat \<Rightarrow> nat" where
  "payload_offset es k =
     length HEAD + length (concat (map layout (take k es)))
       + 2 + length (e_name (es ! k)) + 2 + length (e_type (es ! k)) + 4"

definition flipped :: "entry \<Rightarrow> nat \<Rightarrow> byte \<Rightarrow> entry" where
  "flipped e i b = e\<lparr>e_payload := (e_payload e)[i := b]\<rparr>"

text \<open>A valid archive of three files \<open>a\<close>, \<open>b\<close> and \<open>c\<close> with no type: \<open>a\<close> and
  \<open>c\<close> have empty payloads, the payload of \<open>b\<close> is the byte 0, at offset 45, followed by
  its SHA-1 digest. The entries end at the offsets 36, 66 and 95.\<close>

definition three_files :: "byte list" where
  "three_files =
     [0x42, 0x55, 0x4e, 0x44, 0x4c, 0x45, 0x31,
      1, 0, 0x61, 0, 0, 0, 0, 0, 0,
      218, 57, 163, 238, 94, 107, 75, 13, 50, 85,
      191, 239, 149, 96, 24, 144, 175, 216, 7, 9,
      1, 0, 0x62, 0, 0, 1, 0, 0, 0, 0,
      91, 169, 60, 157, 176, 207, 249, 63, 82, 181,
      33, 215, 66, 14, 67, 246, 237, 162, 120, 79,
      1, 0, 0x63, 0, 0, 0, 0, 0, 0,
      218, 57, 163, 238, 94, 107, 75, 13, 50, 85,
      191, 239, 149, 96, 24, 144, 175, 216, 7, 9]"

text \<open>The same bytes as three chunks, one behind the header for the first entry and one for
  each of the other entries.\<close>

definition entry_chunks :: "byte list \<Rightarrow> byte list list" where
  "entry_chunks bs = [take 36 bs, take 30 (drop 36 bs), drop 66 bs]"

section \<open>Lemmas: typed arrays and comparisons\<close>

lemma le_value_le_bytes: "le_value (le_bytes k n) = n mod 256 ^ k"
proof (induction k arbitrary: n)
  case 0
  show ?case by simp
next
  case (Suc k)
  have "n mod 256 + 256 * (n div 256 mod 256 ^ k) = n mod (256 * 256 ^ k)"
    by (simp add: mod_mult2_eq)
  with Suc show ?case by (simp add: unat_of_nat)
qed

lemma length_le_bytes [simp]: "length (le_bytes k n) = k"
  by (induction k arbitrary: n) simp_all

lemma length_Uint16Array [simp]: "length (Uint16Array n) = 2"
  by (simp add: Uint16Array_def)

lemma length_Uint32Array [simp]: "length (Uint32Array n) = 4"
  by (simp add: Uint32Array_def)

lemma Uint16Array_first_eq [simp]: "Uint16Array_first (Uint16Array n) = n mod 65536"
  by (simp add: Uint16Array_first_def Uint16Array_def le_value_le_bytes)

lemma Uint32Array_first_eq [simp]: "Uint32Array_first (Uint32Array n) = n mod 4294967296"
  by (simp add: Uint32Array_first_def Uint32Array_def le_value_le_bytes)

lemma Uint16Array_not_Nil [simp]: "Uint16Array n \<noteq> []"
  using length_Uint16Array [of n] by (auto simp del: length_Uint16Array)

lemma Uint32Array_not_Nil [simp]: "Uint32Array n \<noteq> []"
  using length_Uint32Array [of n] by (auto simp del: length_Uint32Array)

lemma every_index_prefix: "every_index i xs ys \<longleftrightarrow> prefix xs (drop i ys)"
proof (induction xs arbitrary: i)
  case Nil
  show ?case by simp
next
  case (Cons v vs)
  show ?case
  proof (cases "i < length ys")
    case True
    then have "drop i ys = ys ! i # drop (Suc i) ys"
      by (simp add: Cons_nth_drop_Suc)
    with True Cons show ?thesis by auto
  next
    case False
    then show ?thesis by simp
  qed
qed

lemma every_equal_prefix: "every_equal xs ys \<longleftrightarrow> prefix xs ys"
  by (simp add: every_equal_def every_index_prefix)

lemma every_equal_refl [simp]: "every_equal xs xs"
  by (simp add: every_equal_prefix)

lemma length_HEAD [simp]: "length HEAD = 7"
  by (simp add: HEAD_def)

lemma HEAD_not_Nil [simp]: "HEAD \<noteq> []"
  by (simp add: HEAD_def)

lemma wrap_None [simp]: "wrap None bs = ArrayBuffer bs"
  by (simp add: wrap_def)

lemma blob_type_default [simp]:
  "blob_type (lit ''application/octet-stream'') = lit ''application/octet-stream''"
  by (simp add: blob_type_def ascii_lower_def lit_def)

lemma bindE_Inr_simp [simp]: "bindE (Inr x) f = f x"
  by (simp add: bindE_def)

lemma bindE_Inl_simp [simp]: "bindE (Inl e) f = Inl e"
  by (simp add: bindE_def)

section \<open>Lemmas: reading from a single chunk\<close>

lemma readLoop_done [simp]: "\<not> bytes < n \<Longrightarrow> readLoop n bytes s = Inr s"
  by (simp add: readLoop.simps)

lemma readBytes_sst:
  assumes "length xs = n" and "ys \<noteq> []"
  shows "readBytes n blobType (sst r pre (xs @ ys)) = Inr (wrap blobType xs, sst r (pre @ xs) ys)"
  using assms
  by (cases "n = 0") (auto simp: readBytes_def sst_def slice_of_def readLoop.simps [of n 0] Let_def)

lemma readBytes_sst_last:
  assumes "length xs = n" and "xs \<noteq> []"
  shows "readBytes n blobType (sst r pre xs) = Inr (wrap blobType xs, fin r (pre @ xs))"
  using assms
  by (auto simp: readBytes_def sst_def fin_def slice_of_def Let_def
        readLoop.simps [of n 0] readLoop.simps [of n n])

lemma readBytes_sst_eof:
  assumes "length suf < n"
  shows "readBytes n blobType (sst [] pre suf) = Inl UnexpectedEndOfFile"
  using assms
  by (auto simp: readBytes_def sst_def Let_def
        readLoop.simps [of n 0] readLoop.simps [of n "length suf"])

lemma readBytes_fin:
  "readBytes n blobType (fin [] bs) = (if n = 0 then Inl TypeError else Inl UnexpectedEndOfFile)"
  by (auto simp: readBytes_def fin_def Let_def readLoop.simps [of n 0])

lemma layout_not_Nil [simp]: "layout e \<noteq> []"
  by (simp add: layout_def)


lemma decodeEntry_layout:
  assumes "fits e"
  shows "decodeEntry verify (sst r pre (layout e @ rest)) =
           (case check verify e of
              Some err \<Rightarrow> Inl err
            | None \<Rightarrow> Inr (decoded e, if rest = [] then fin r (pre @ layout e)
                                      else sst r (pre @ layout e) rest))"
proof -
  define N T P D where "N = e_name e" and "T = e_type e" and "P = e_payload e" and "D = e_digest e"
  define p1 p2 p3 p4 p5 p6
    where "p1 = pre @ Uint16Array (length N)" and "p2 = p1 @ N"
      and "p3 = p2 @ Uint16Array (length T)" and "p4 = p3 @ T"
      and "p5 = p4 @ Uint32Array (length P)" and "p6 = p5 @ P"
  from assms have sizes: "length N < 65536" "length T < 65536" "length P < 4294967296"
      "length D = 20" "D \<noteq> []"
    by (auto simp: fits_def N_def T_def P_def D_def)
  have whole: "layout e @ rest =
      Uint16Array (length N) @ N @ Uint16Array (length T) @ T @ Uint32Array (length P) @ P @ D @ rest"
    by (simp add: layout_def N_def T_def P_def D_def)
  have r1: "readBytes 2 None (sst r pre (layout e @ rest)) =
      Inr (ArrayBuffer (Uint16Array (length N)),
           sst r p1 (N @ Uint16Array (length T) @ T @ Uint32Array (length P) @ P @ D @ rest))"
    unfolding whole p1_def using sizes by (subst readBytes_sst) simp_all
  have r2: "readBytes (length N) None
              (sst r p1 (N @ Uint16Array (length T) @ T @ Uint32Array (length P) @ P @ D @ rest)) =
      Inr (ArrayBuffer N, sst r p2 (Uint16Array (length T) @ T @ Uint32Array (length P) @ P @ D @ rest))"
    unfolding p2_def using sizes by (subst readBytes_sst) simp_all
  have r3: "readBytes 2 None
              (sst r p2 (Uint16Array (length T) @ T @ Uint32Array (length P) @ P @ D @ rest)) =
      Inr (ArrayBuffer (Uint16Array (length T)), sst r p3 (T @ Uint32Array (length P) @ P @ D @ rest))"
    unfolding p3_def using sizes by (subst readBytes_sst) simp_all
  have r4: "readBytes (length T) None (sst r p3 (T @ Uint32Array (length P) @ P @ D @ rest)) =
      Inr (ArrayBuffer T, sst r p4 (Uint32Array (length P) @ P @ D @ rest))"
    unfolding p4_def using sizes by (subst readBytes_sst) simp_all
  have r34: "(if length T = 0
                then Inr (lit ''application/octet-stream'',
                          sst r p3 (T @ Uint32Array (length P) @ P @ D @ rest))
                else bindE (readBytes (length T) None
                              (sst r p3 (T @ Uint32Array (length P) @ P @ D @ rest)))
                       (\<lambda>(b4, s4). Inr (utf8_decode (content b4), s4))) =
      Inr (media e, sst r p4 (Uint32Array (length P) @ P @ D @ rest))"
    by (cases "T = []") (simp_all add: r4 media_def p4_def flip: T_def)
  have r5: "readBytes 4 None (sst r p4 (Uint32Array (length P) @ P @ D @ rest)) =
      Inr (ArrayBuffer (Uint32Array (length P)), sst r p5 (P @ D @ rest))"
    unfolding p5_def using sizes by (subst readBytes_sst) simp_all
  have r6: "readBytes (length P) blobType (sst r p5 (P @ D @ rest)) =
      Inr (wrap blobType P, sst r p6 (D @ rest))" for blobType
    unfolding p6_def using sizes by (subst readBytes_sst) simp_all
  have r7: "readBytes 20 None (sst r p6 (D @ rest)) =
      Inr (ArrayBuffer D, if rest = [] then fin r (pre @ layout e) else sst r (pre @ layout e) rest)"
  proof (cases "rest = []")
    case True
    have "readBytes 20 None (sst r p6 D) = Inr (wrap None D, fin r (p6 @ D))"
      using sizes by (intro readBytes_sst_last) simp_all
    moreover have "p6 @ D = pre @ layout e"
      by (simp add: p6_def p5_def p4_def p3_def p2_def p1_def layout_def N_def T_def P_def D_def)
    ultimately show ?thesis using True by simp
  next
    case False
    have "readBytes 20 None (sst r p6 (D @ rest)) = Inr (wrap None D, sst r (p6 @ D) rest)"
      using sizes False by (intro readBytes_sst) simp_all
    moreover have "p6 @ D = pre @ layout e"
      by (simp add: p6_def p5_def p4_def p3_def p2_def p1_def layout_def N_def T_def P_def D_def)
    ultimately show ?thesis using False by simp
  qed
  have m: "length N mod 65536 = length N" "length T mod 65536 = length T"
      "length P mod 4294967296 = length P"
    using sizes by simp_all
  show ?thesis
    unfolding decodeEntry_def
    by (simp only: r1 r2 r3 r34 r5 r6 r7 m bindE_Inr_simp prod.case Let_def content.simps
          Uint16Array_first_eq Uint32Array_first_eq check_def decoded_def
          flip: N_def T_def P_def D_def)
qed

lemma layouts_Nil [simp]: "concat (map layout es) = [] \<longleftrightarrow> es = []"
  by (cases es) simp_all

lemma maybeReadMore_sst [simp]: "pre \<noteq> [] \<Longrightarrow> maybeReadMore (sst r pre suf) = sst r pre suf"
  by (simp add: maybeReadMore_def sst_def)

lemma maybeReadMore_fin [simp]: "maybeReadMore (fin [] bs) = (fin [] bs)\<lparr>running := False\<rparr>"
  by (simp add: maybeReadMore_def fin_def)

lemma running_fin [simp]: "running (fin r bs)"
  by (simp add: fin_def)

lemma decodeLoop_stopped [simp]: "\<not> running s \<Longrightarrow> decodeLoop verify s = ([], None)"
  by (simp add: decodeLoop.simps)

lemma decodeLoop_layouts:
  assumes "\<forall>e \<in> set es. fits e" and "es \<noteq> []"
  shows "decodeLoop verify (sst [] pre (concat (map layout es))) = walk verify es"
  using assms
proof (induction es arbitrary: pre)
  case Nil
  then show ?case by simp
next
  case (Cons e es)
  then have e: "fits e" by simp
  have run: "running (sst [] pre suf)" for suf by (simp add: sst_def)
  show ?case
  proof (cases "check verify e")
    case (Some err)
    then show ?thesis
      using decodeEntry_layout [OF e, of verify "[]" pre "concat (map layout es)"] run
      by (simp add: decodeLoop.simps [of verify "sst [] pre _"])
  next
    case None
    show ?thesis
    proof (cases "es = []")
      case True
      then show ?thesis
        using None decodeEntry_layout [OF e, of verify "[]" pre "[]"] run [of "layout e"]
        by (simp add: decodeLoop.simps [of verify "sst [] pre _"])
    next
      case False
      with Cons have "decodeLoop verify (sst [] (pre @ layout e) (concat (map layout es))) = walk verify es"
        by simp
      then show ?thesis
        using None False decodeEntry_layout [OF e, of verify "[]" pre "concat (map layout es)"] run
        by (simp add: decodeLoop.simps [of verify "sst [] pre _"])
    qed
  qed
qed

lemma initial_sst:
  "\<lparr>reader = r, chunks = [bs], chunk = 0, cursor = 0, running = True\<rparr> = sst r [] bs"
  by (simp add: sst_def)

lemma decodeAssetBundleStream_layouts:
  assumes "\<forall>e \<in> set es. fits e" and "es \<noteq> []"
  shows "decodeAssetBundleStream [HEAD @ concat (map layout es)] options =
           walk (case options of None \<Rightarrow> True | Some v \<Rightarrow> v) es"
  using assms decodeLoop_layouts [OF assms, of _ HEAD]
    readBytes_sst [of HEAD 7 "concat (map layout es)" None "[]" "[]"]
  by (simp add: decodeAssetBundleStream_def initial_sst)

lemma decodeAssetBundleStream_HEAD:
  "decodeAssetBundleStream [HEAD] options = ([], Some UnexpectedEndOfFile)"
  using readBytes_sst_last [of HEAD 7 None "[]" "[]"]
  by (simp add: decodeAssetBundleStream_def initial_sst decodeLoop.simps [of _ "fin [] _"]
        decodeEntry_def readBytes_fin running_fin)


lemma sha1_length [simp]: "length (sha1 m) = 20"
  by (cases "sha1_blocks (length (sha1_pad m) div 64)
               (0x67452301, 0xEFCDAB89, 0x98BADCFE, 0x10325476, 0xC3D2E1F0) (sha1_pad m)")
     (simp add: sha1_def be32_def)

lemma concat_parts [simp]: "concat (parts e) = layout e"
  by (simp add: parts_def layout_def)

lemma encodeFiles_convertible:
  assumes "convertible file" and "name file \<notin> seen"
  shows "encodeFiles (file # files) seen cs =
           encodeFiles files (insert (name file) seen) (cs @ parts (wire file))"
  using assms
  by (auto simp: convertible_def wire_def parts_def Let_def split: prod.splits js_value.splits)

lemma encodeFiles_not_convertible:
  assumes "\<not> convertible file" and "name file \<notin> seen"
  shows "encodeFiles (file # files) seen cs = Inl (CouldNotConvert (name file))"
  using assms
  by (auto simp: convertible_def split: prod.splits js_value.splits)

lemma encodeFiles_prefix:
  assumes "distinct (map name pre)" and "name ` set pre \<inter> seen = {}"
  shows "encodeFiles (pre @ rest) seen cs =
           (case find (\<lambda>g. \<not> convertible g) pre of
              Some g \<Rightarrow> Inl (CouldNotConvert (name g))
            | None \<Rightarrow> encodeFiles rest (seen \<union> name ` set pre)
                        (cs @ concat (map (parts \<circ> wire) pre)))"
  using assms
proof (induction pre arbitrary: seen cs)
  case Nil
  show ?case by simp
next
  case (Cons f pre)
  then have fresh: "name f \<notin> seen" and d: "distinct (map name pre)"
    and disj: "name ` set pre \<inter> insert (name f) seen = {}"
    by auto
  show ?case
  proof (cases "convertible f")
    case False
    with fresh show ?thesis
      by (simp add: encodeFiles_not_convertible del: encodeFiles.simps)
  next
    case True
    have "insert (name f) seen \<union> name ` set pre = seen \<union> name ` set (f # pre)"
      by auto
    with True fresh Cons.IH [OF d disj] show ?thesis
      by (simp add: encodeFiles_convertible del: encodeFiles.simps split: option.splits)
  qed
qed

lemma concat_map_parts: "concat (concat (map (parts \<circ> wire) files)) = concat (map (layout \<circ> wire) files)"
  by (induction files) simp_all

lemma encodeAssetBundle_layouts:
  assumes "distinct (map name files)" and "\<forall>f \<in> set files. convertible f"
  shows "encodeAssetBundle files = Inr (HEAD @ concat (map (layout \<circ> wire) files))"
proof -
  from assms(2) have "find (\<lambda>g. \<not> convertible g) files = None"
    by (simp add: find_None_iff)
  with encodeFiles_prefix [OF assms(1), of "{}" "[]" "[]"] show ?thesis
    by (simp add: encodeAssetBundle_def concat_map_parts)
qed

lemma Uint16Array_bytes: "Uint16Array n = [of_nat (n mod 256), of_nat (n div 256 mod 256)]"
  by (simp add: Uint16Array_def numeral_2_eq_2)

lemma Uint32Array_bytes:
  "Uint32Array n = [of_nat (n mod 256), of_nat (n div 256 mod 256),
                    of_nat (n div 65536 mod 256), of_nat (n div 16777216 mod 256)]"
proof -
  have four: "(4::nat) = Suc (Suc (Suc (Suc 0)))" by simp
  show ?thesis
    unfolding Uint32Array_def four by (simp flip: div_mult2_eq)
qed

lemma maybeReadMore_fin_more:
  "maybeReadMore (fin (v # r) bs) =
     \<lparr>reader = r, chunks = [bs, v], chunk = 2, cursor = 0, running = True\<rparr>"
  by (simp add: maybeReadMore_def fin_def pull_def)

lemma lost_chunk:
  assumes "fits e" and "check verify e = None"
  shows "decodeLoop verify (sst [v] pre (layout e)) = ([decoded e], Some UnexpectedEndOfFile)"
proof -
  have "decodeEntry verify \<lparr>reader = [], chunks = [bs, v], chunk = 2, cursor = 0, running = True\<rparr>
          = Inl UnexpectedEndOfFile" for bs
    by (simp add: decodeEntry_def readBytes_def readLoop.simps [of 2 0])
  then have "decodeLoop verify \<lparr>reader = [], chunks = [bs, v], chunk = 2, cursor = 0, running = True\<rparr>
          = ([], Some UnexpectedEndOfFile)" for bs
    by (simp add: decodeLoop.simps [of verify "\<lparr>reader = [], chunks = _, chunk = 2, cursor = 0, running = True\<rparr>"])
  moreover have "running (sst [v] pre (layout e))"
    by (simp add: sst_def)
  ultimately show ?thesis
    using assms decodeEntry_layout [OF assms(1), of verify "[v]" pre "[]"]
    by (simp add: decodeLoop.simps [of verify "sst [v] pre _"] maybeReadMore_fin_more)
qed

lemma norm32_id: "norm32 w = w"
  by (simp add: norm32_def)

lemma replicate_numeral_unfold: "replicate (numeral k) x = x # replicate (pred_numeral k) x"
  by (simp add: numeral_eq_Suc)

lemma sha1_expand_numeral:
  "sha1_expand (numeral k) ws =
     sha1_expand (pred_numeral k)
       (norm32 (rotl32 1 (ws ! 2 XOR ws ! 7 XOR ws ! 13 XOR ws ! 15)) # ws)"
  by (simp add: numeral_eq_Suc norm32_id)

lemma sha1_blocks_numeral:
  "sha1_blocks (numeral k) h bs =
     sha1_blocks (pred_numeral k) (sha1_block h (take 64 bs)) (drop 64 bs)"
  by (simp add: numeral_eq_Suc)

lemma sha1_round_eval:
  "sha1_round p (a, b, c, d, e) w =
     (norm32 (rotl32 5 a
        + (if p = 0 then (b AND c) OR (norm32 (NOT b) AND d)
           else if p = 2 then (b AND c) OR (b AND d) OR (c AND d)
           else b XOR c XOR d)
        + e
        + (if p = 0 then 0x5A827999 else if p = 1 then 0x6ED9EBA1
           else if p = 2 then 0x8F1BBCDC else 0xCA62C1D6)
        + w),
      a, norm32 (rotl32 30 b), c, d)"
  by (simp add: norm32_id)

lemma sha1_add_eval:
  "sha1_add (h0, h1, h2, h3, h4) (a, b, c, d, e) =
     (norm32 (h0 + a), norm32 (h1 + b), norm32 (h2 + c), norm32 (h3 + d), norm32 (h4 + e))"
  by (simp add: norm32_id)

lemmas sha1_eval =
  sha1_def sha1_pad_def sha1_block_def sha1_rounds_def be32_def rotl32_def norm32_def
  sha1_expand_numeral sha1_blocks_numeral replicate_numeral_unfold sha1_round_eval sha1_add_eval

lemma sha1_empty:
  "sha1 [] = [218, 57, 163, 238, 94, 107, 75, 13, 50, 85,
              191, 239, 149, 96, 24, 144, 175, 216, 7, 9]"
  by (simp add: sha1_eval del: sha1_round.simps sha1_add.simps)

lemma sha1_byte0:
  "sha1 [0] = [91, 169, 60, 157, 176, 207, 249, 63, 82, 181,
               33, 215, 66, 14, 67, 246, 237, 162, 120, 79]"
  by (simp add: sha1_eval del: sha1_round.simps sha1_add.simps)

lemma sha1_byte1:
  "sha1 [1] = [191, 139, 69, 48, 216, 210, 70, 221, 116, 172,
               83, 161, 52, 113, 187, 161, 121, 65, 223, 247]"
  by (simp add: sha1_eval del: sha1_round.simps sha1_add.simps)

lemmas utf8_eval = utf8_encode_def utf8_bytes_def utf8_decode_def utf16_units_def lit_def

lemma two_files_layouts: "two_files = HEAD @ concat (map layout [empty_file 0x61, empty_file 0x62])"
  by (simp add: two_files_def HEAD_def layout_def empty_file_def Uint16Array_bytes
        Uint32Array_bytes sha1_empty)

lemma two_files_encoded:
  "encodeAssetBundle [\<lparr>name = lit ''a'', type = None, data = JString []\<rparr>,
                      \<lparr>name = lit ''b'', type = None, data = JString []\<rparr>] = Inr two_files"
  by (simp add: encodeAssetBundle_def resolve_def utf8_eval Uint16Array_bytes Uint32Array_bytes
        two_files_def HEAD_def sha1_empty Let_def)

lemma fits_empty_file [simp]: "fits (empty_file c)"
  by (simp add: fits_def empty_file_def)

lemma default_type_not_Nil [simp]: "lit ''application/octet-stream'' \<noteq> []"
  by (simp add: lit_def)

lemma check_empty_file [simp]: "check verify (empty_file c) = None"
  by (simp add: check_def verifyHash_def empty_file_def media_def wrap_def)

lemma decoded_empty_file:
  "decoded (empty_file c) =
     \<lparr>out_name = utf8_decode [c], out_data = Blob [] (lit ''application/octet-stream'')\<rparr>"
  by (simp add: decoded_def empty_file_def media_def wrap_def)

lemma code_points_below_surrogates:
  "\<forall>u \<in> set s. unat u < 0xD800 \<Longrightarrow> code_points s = map unat s"
  by (induction s rule: code_points.induct) auto

lemma utf8_encode_ascii:
  assumes "\<forall>u \<in> set s. unat u < 0x80"
  shows "utf8_encode s = map (\<lambda>u. of_nat (unat u)) s"
proof -
  from assms have "\<forall>u \<in> set s. unat u < 0xD800" by auto
  then have "utf8_encode s = concat (map utf8_bytes (map unat s))"
    by (simp add: utf8_encode_def code_points_below_surrogates)
  also from assms have "\<dots> = map (\<lambda>u. of_nat (unat u)) s"
    by (induction s) (simp_all add: utf8_bytes_def)
  finally show ?thesis .
qed

lemma utf8_encode_Nil [simp]: "utf8_encode [] = []"
  by (simp add: utf8_encode_def)

lemma utf8_decode_Nil [simp]: "utf8_decode [] = []"
  by (simp add: utf8_decode_def)

lemma wire_long_name:
  "wire long_name =
     \<lparr>e_name = replicate 65536 0x61, e_type = [], e_payload = [], e_digest = sha1 []\<rparr>"
  by (simp add: wire_def long_name_def resolve_def utf8_encode_ascii)

lemma convertible_long_name: "convertible long_name"
  by (simp add: convertible_def long_name_def resolve_def)

lemma plain_resolve:
  assumes "plain (data file)"
  shows "resolve file =
           (ArrayBuffer (supplied (data file)),
            case type file of None \<Rightarrow> Undefined | Some t \<Rightarrow> JString t)"
  using assms by (cases "data file") (simp_all add: resolve_def view_bytes_def)

lemma round_trips_wire:
  assumes "round_trips file"
  shows "convertible file" and "fits (wire file)" and "check verify (wire file) = None"
    and "decoded (wire file) = expected file"
proof -
  from assms have res: "resolve file =
      (ArrayBuffer (supplied (data file)),
       case type file of None \<Rightarrow> Undefined | Some t \<Rightarrow> JString t)"
    by (simp add: round_trips_def plain_resolve)
  show "convertible file"
    by (simp add: convertible_def res)
  show "fits (wire file)"
    using assms by (auto simp: fits_def wire_def res round_trips_def split: option.splits)
  have nonempty: "utf8_encode t \<noteq> []" if "type file = Some t" and "t \<noteq> []" for t
  proof
    assume "utf8_encode t = []"
    moreover from assms that have "utf8_decode (utf8_encode t) = t"
      by (simp add: round_trips_def)
    ultimately show False using that by simp
  qed
  have med: "media (wire file) =
      (case type file of
         None \<Rightarrow> lit ''application/octet-stream''
       | Some t \<Rightarrow> if t = [] then lit ''application/octet-stream'' else t)"
    using assms nonempty
    by (auto simp: media_def wire_def res round_trips_def split: option.splits)
  then have typed: "media (wire file) \<noteq> []"
    by (auto split: option.splits)
  from assms med have kept: "blob_type (media (wire file)) = media (wire file)"
    by (auto simp: round_trips_def split: option.splits)
  show "decoded (wire file) = expected file"
    using assms typed
    by (simp add: decoded_def expected_def wrap_def kept med [symmetric])
       (simp add: wire_def res round_trips_def)
  show "check verify (wire file) = None"
    using typed by (simp add: check_def verifyHash_def wrap_def) (simp add: wire_def)
qed

lemma walk_round_trips:
  "\<forall>f \<in> set files. round_trips f \<Longrightarrow> walk verify (map wire files) = (map expected files, None)"
  by (induction files) (simp_all add: round_trips_wire)

lemma replicate_65536:
  "replicate 65536 (a::byte) =
     [a, a] @ replicate 24929 a @ [a, a, a, a] @ replicate 40601 a"
proof -
  have "replicate 65536 a = replicate (2 + (24929 + (4 + 40601))) a"
    by simp
  also have "\<dots> = replicate 2 a @ replicate 24929 a @ replicate 4 a @ replicate 40601 a"
    by (simp only: replicate_add)
  also have "replicate 2 a = [a, a]"
    by (simp add: replicate_numeral_unfold)
  also have "replicate 4 a = [a, a, a, a]"
    by (simp add: replicate_numeral_unfold)
  finally show ?thesis .
qed

lemma encode_long_name:
  "encodeAssetBundle [long_name] =
     Inr (HEAD @ [0, 0] @ replicate 65536 0x61 @ [0, 0] @ [0, 0, 0, 0] @ sha1 [])"
  using encodeAssetBundle_layouts [of "[long_name]"]
  by (simp add: convertible_long_name wire_long_name layout_def Uint16Array_bytes
        Uint32Array_bytes)

lemma decode_long_name:
  "decodeAssetBundleStream
     [HEAD @ [0, 0] @ replicate 65536 0x61 @ [0, 0] @ [0, 0, 0, 0] @ sha1 []] None =
   ([], Some UnexpectedEndOfFile)"
proof -
  define a :: byte where "a = 0x61"
  define R where "R = replicate 24929 a"
  define tail0 where "tail0 = replicate 40601 a @ [0, 0] @ [0, 0, 0, 0] @ sha1 []"
  define p1 p2 p3 p4 where "p1 = HEAD @ [0, 0]" and "p2 = p1 @ [a, a]" and "p3 = p2 @ R"
    and "p4 = p3 @ [a, a, a, a]"
  have len: "length tail0 = 40627" "length R = 24929" "tail0 \<noteq> []"
    by (auto simp: tail0_def R_def)
  have whole: "HEAD @ [0, 0] @ replicate 65536 0x61 @ [0, 0] @ [0, 0, 0, 0] @ sha1 [] =
      HEAD @ [0, 0] @ [a, a] @ R @ [a, a, a, a] @ tail0"
    by (simp add: replicate_65536 tail0_def R_def a_def)
  have h: "readBytes 7 None (sst [] [] (HEAD @ [0, 0] @ [a, a] @ R @ [a, a, a, a] @ tail0)) =
      Inr (ArrayBuffer HEAD, sst [] HEAD ([0, 0] @ [a, a] @ R @ [a, a, a, a] @ tail0))"
    using readBytes_sst [of HEAD 7 "[0, 0] @ [a, a] @ R @ [a, a, a, a] @ tail0" None "[]" "[]"]
    by simp
  have r1: "readBytes 2 None (sst [] HEAD ([0, 0] @ [a, a] @ R @ [a, a, a, a] @ tail0)) =
      Inr (ArrayBuffer [0, 0], sst [] p1 ([a, a] @ R @ [a, a, a, a] @ tail0))"
    unfolding p1_def by (subst readBytes_sst) simp_all
  have r2: "readBytes 0 None (sst [] p1 ([a, a] @ R @ [a, a, a, a] @ tail0)) =
      Inr (ArrayBuffer [], sst [] p1 ([a, a] @ R @ [a, a, a, a] @ tail0))"
    using readBytes_sst [of "[]" 0 "[a, a] @ R @ [a, a, a, a] @ tail0" None "[]" p1] by simp
  have r3: "readBytes 2 None (sst [] p1 ([a, a] @ R @ [a, a, a, a] @ tail0)) =
      Inr (ArrayBuffer [a, a], sst [] p2 (R @ [a, a, a, a] @ tail0))"
    unfolding p2_def by (subst readBytes_sst) simp_all
  have r4: "readBytes 24929 None (sst [] p2 (R @ [a, a, a, a] @ tail0)) =
      Inr (ArrayBuffer R, sst [] p3 ([a, a, a, a] @ tail0))"
    unfolding p3_def using len by (subst readBytes_sst) simp_all
  have r5: "readBytes 4 None (sst [] p3 ([a, a, a, a] @ tail0)) =
      Inr (ArrayBuffer [a, a, a, a], sst [] p4 tail0)"
    unfolding p4_def using len by (subst readBytes_sst) simp_all
  have r6: "readBytes 1633771873 blobType (sst [] p4 tail0) = Inl UnexpectedEndOfFile"
    for blobType
    using len by (intro readBytes_sst_eof) simp
  have v: "Uint16Array_first [0, 0] = 0" "Uint16Array_first [a, a] = 24929"
    "Uint32Array_first [a, a, a, a] = 1633771873"
    by (simp_all add: Uint16Array_first_def Uint32Array_first_def a_def)
  have nz: "(24929::nat) \<noteq> 0" by simp
  have "decodeEntry True (sst [] HEAD ([0, 0] @ [a, a] @ R @ [a, a, a, a] @ tail0)) =
      Inl UnexpectedEndOfFile"
    unfolding decodeEntry_def
    by (simp only: r1 r2 r3 r4 r5 r6 v nz if_False bindE_Inr_simp bindE_Inl_simp prod.case
          Let_def content.simps)
  moreover have "running (sst [] HEAD suf)" for suf
    by (simp add: sst_def)
  ultimately have "decodeLoop True (sst [] HEAD ([0, 0] @ [a, a] @ R @ [a, a, a, a] @ tail0)) =
      ([], Some UnexpectedEndOfFile)"
    by (simp add: decodeLoop.simps [of True "sst [] HEAD _"])
  with h show ?thesis
    unfolding whole by (simp add: decodeAssetBundleStream_def initial_sst)
qed

lemma encode_lone_surrogate: "encodeAssetBundle [lone_surrogate] = Inr (HEAD @ layout replaced)"
  using encodeAssetBundle_layouts [of "[lone_surrogate]"]
  by (simp add: convertible_def wire_def lone_surrogate_def replaced_def resolve_def utf8_eval)

lemma decode_replaced:
  "decodeAssetBundleStream [HEAD @ layout replaced] None =
     ([\<lparr>out_name = [0xFFFD], out_data = Blob [] (lit ''application/octet-stream'')\<rparr>], None)"
  using decodeAssetBundleStream_layouts [of "[replaced]" None]
  by (simp add: fits_def check_def verifyHash_def decoded_def media_def wrap_def replaced_def)
     (simp add: utf8_eval)

lemma list_update_middle:
  "j < length ys \<Longrightarrow> (xs @ ys @ zs)[length xs + j := b] = xs @ ys[j := b] @ zs"
  by (simp add: list_update_append)

lemma layout_update:
  assumes "i < length (e_payload e)"
  shows "(layout e)[2 + length (e_name e) + 2 + length (e_type e) + 4 + i := b] =
           layout (flipped e i b)"
  using assms by (simp add: layout_def flipped_def list_update_append)

lemma archive_update:
  assumes "k < length es" and "i < length (e_payload (es ! k))"
  shows "(archive es)[payload_offset es k + i := b] = archive (es[k := flipped (es ! k) i b])"
proof -
  let ?pre = "HEAD @ concat (map layout (take k es))"
  let ?post = "concat (map layout (drop (Suc k) es))"
  let ?j = "2 + length (e_name (es ! k)) + 2 + length (e_type (es ! k)) + 4 + i"
  have inside: "?j < length (layout (es ! k))"
    using assms(2) by (simp add: layout_def)
  from assms(1) have "es = take k es @ es ! k # drop (Suc k) es"
    by (rule id_take_nth_drop)
  then have "concat (map layout es) =
      concat (map layout (take k es @ es ! k # drop (Suc k) es))"
    by (rule arg_cong)
  then have "archive es = ?pre @ layout (es ! k) @ ?post"
    by (simp add: archive_def)
  moreover have "payload_offset es k + i = length ?pre + ?j"
    by (simp add: payload_offset_def)
  moreover have "(?pre @ layout (es ! k) @ ?post)[length ?pre + ?j := b] =
      ?pre @ (layout (es ! k))[?j := b] @ ?post"
    using inside by (rule list_update_middle)
  ultimately have "(archive es)[payload_offset es k + i := b] =
      ?pre @ (layout (es ! k))[?j := b] @ ?post"
    by (simp only:)
  also have "\<dots> = ?pre @ layout (flipped (es ! k) i b) @ ?post"
    using assms(2) by (simp only: layout_update)
  also from assms(1) have "\<dots> = archive (es[k := flipped (es ! k) i b])"
    by (simp add: archive_def upd_conv_take_nth_drop)
  finally show ?thesis .
qed

lemma walk_all_ok:
  "\<forall>e \<in> set es. check verify e = None \<Longrightarrow> walk verify es = (map decoded es, None)"
  by (induction es) simp_all

lemma walk_first_failure:
  assumes "\<forall>e \<in> set pre. check verify e = None" and "check verify e = Some err"
  shows "walk verify (pre @ e # post) = (map decoded pre, Some err)"
  using assms by (induction pre) simp_all

lemma check_False [simp]: "check False e = None"
  by (simp add: check_def verifyHash_def)

lemma check_True:
  assumes "typed e"
  shows "check True e = (if digest_ok e then None else Some (HashMismatch (utf8_decode (e_name e))))"
  using assms by (simp add: check_def verifyHash_def typed_def digest_ok_def wrap_def)

lemma fits_flipped [simp]: "fits (flipped e i b) = fits e"
  by (simp add: fits_def flipped_def)

lemma typed_flipped [simp]: "typed (flipped e i b) = typed e"
  by (simp add: typed_def media_def flipped_def)

lemma decode_archive:
  assumes "\<forall>e \<in> set es. fits e" and "es \<noteq> []"
  shows "decodeAssetBundleStream [archive es] options =
           walk (case options of None \<Rightarrow> True | Some v \<Rightarrow> v) es"
  using decodeAssetBundleStream_layouts [OF assms] by (simp add: archive_def)

lemma decodeAssetBundle_first_mismatch:
  assumes "\<forall>e \<in> set (pre @ e # post). fits e \<and> typed e"
    and "\<forall>p \<in> set pre. digest_ok p" and "\<not> digest_ok e"
  shows "decodeAssetBundle [archive (pre @ e # post)] =
           Inl (HashMismatch (utf8_decode (e_name e)))"
proof -
  have fit: "\<forall>x \<in> set (pre @ e # post). fits x"
    using assms(1) by blast
  have "\<forall>p \<in> set pre. check True p = None"
    using assms(1,2) by (simp add: check_True)
  moreover have "check True e = Some (HashMismatch (utf8_decode (e_name e)))"
    using assms(1,3) by (simp add: check_True)
  ultimately have "walk True (pre @ e # post) =
      (map decoded pre, Some (HashMismatch (utf8_decode (e_name e))))"
    by (rule walk_first_failure)
  then show ?thesis
    using decode_archive [OF fit, of None] by (simp add: decodeAssetBundle_def)
qed

lemmas decoder_eval =
  decodeAssetBundleStream_def readBytes_def readLoop.simps pull_def decodeLoop.simps
  decodeEntry_def verifyHash_def slice_of_def wrap_def every_equal_prefix HEAD_def
  Uint16Array_first_def Uint32Array_first_def maybeReadMore_def blob_type_def ascii_lower_def

lemma three_files_encoded:
  "encodeAssetBundle [\<lparr>name = lit ''a'', type = None, data = JString []\<rparr>,
                      \<lparr>name = lit ''b'', type = None, data = ArrayBuffer [0]\<rparr>,
                      \<lparr>name = lit ''c'', type = None, data = JString []\<rparr>] = Inr three_files"
  by (simp add: encodeAssetBundle_def resolve_def utf8_eval Uint16Array_bytes Uint32Array_bytes
        three_files_def HEAD_def sha1_empty sha1_byte0 Let_def)

lemma three_files_one_chunk:
  "decodeAssetBundleStream [three_files] (Some True) =
     ([\<lparr>out_name = lit ''a'', out_data = Blob [] (lit ''application/octet-stream'')\<rparr>,
       \<lparr>out_name = lit ''b'', out_data = Blob [0] (lit ''application/octet-stream'')\<rparr>,
       \<lparr>out_name = lit ''c'', out_data = Blob [] (lit ''application/octet-stream'')\<rparr>], None)"
  by (simp add: three_files_def decoder_eval utf8_eval sha1_empty sha1_byte0)

lemma corrupted_one_chunk:
  "decodeAssetBundleStream [three_files[45 := 1]] (Some True) =
     ([\<lparr>out_name = lit ''a'', out_data = Blob [] (lit ''application/octet-stream'')\<rparr>],
      Some (HashMismatch (lit ''b'')))"
  by (simp add: three_files_def decoder_eval utf8_eval sha1_empty sha1_byte1)

lemma corrupted_entry_chunks_True:
  "decodeAssetBundleStream (entry_chunks (three_files[45 := 1])) (Some True) =
     ([\<lparr>out_name = lit ''a'', out_data = Blob [] (lit ''application/octet-stream'')\<rparr>,
       \<lparr>out_name = lit ''c'', out_data = Blob [] (lit ''application/octet-stream'')\<rparr>], None)"
  by (simp add: three_files_def entry_chunks_def decoder_eval utf8_eval sha1_empty)

lemma corrupted_entry_chunks_False:
  "decodeAssetBundleStream (entry_chunks (three_files[45 := 1])) (Some False) =
     ([\<lparr>out_name = lit ''a'', out_data = Blob [] (lit ''application/octet-stream'')\<rparr>,
       \<lparr>out_name = lit ''c'', out_data = Blob [] (lit ''application/octet-stream'')\<rparr>], None)"
  by (simp add: three_files_def entry_chunks_def decoder_eval utf8_eval)

lemma corrupted_entry_chunks_None:
  "decodeAssetBundleStream (entry_chunks (three_files[45 := 1])) None =
     ([\<lparr>out_name = lit ''a'', out_data = Blob [] (lit ''application/octet-stream'')\<rparr>,
       \<lparr>out_name = lit ''c'', out_data = Blob [] (lit ''application/octet-stream'')\<rparr>], None)"
  by (simp add: three_files_def entry_chunks_def decoder_eval utf8_eval sha1_empty)

lemma bom_type_not_typed:
  "decodeAssetBundleStream
     [archive [\<lparr>e_name = [0x61], e_type = [0xEF, 0xBB, 0xBF], e_payload = [1],
                e_digest = sha1 [0]\<rparr>]] (Some True) =
     ([], Some TypeError)"
  using decode_archive
    [of "[\<lparr>e_name = [0x61], e_type = [0xEF, 0xBB, 0xBF], e_payload = [1], e_digest = sha1 [0]\<rparr>]"
      "Some True"]
  by (simp add: fits_def check_def verifyHash_def media_def wrap_def utf8_eval)

lemma encode_upper_case_type:
  "encodeAssetBundle [\<lparr>name = lit ''a'', type = Some (lit ''Text/Plain''), data = JString []\<rparr>] =
     Inr (HEAD @ [1, 0] @ [0x61] @ [10, 0] @ utf8_encode (lit ''Text/Plain'')
            @ [0, 0, 0, 0] @ sha1 [])"
  by (simp add: encodeAssetBundle_def resolve_def utf8_eval Uint16Array_bytes Uint32Array_bytes
        Let_def)

lemma decode_upper_case_type:
  "decodeAssetBundleStream
     [HEAD @ [1, 0] @ [0x61] @ [10, 0] @ utf8_encode (lit ''Text/Plain'')
        @ [0, 0, 0, 0] @ sha1 []] None =
   ([\<lparr>out_name = lit ''a'', out_data = Blob [] (lit ''text/plain'')\<rparr>], None)"
  by (simp add: decoder_eval utf8_eval sha1_empty)

chapter \<open>The properties\<close>

section \<open>C6: duplicate names\<close>




section \<open>C2: chunk boundaries\<close>

text \<open>
  Claim C2: the result of \<^verbatim>\<open>decodeAssetBundleStream\<close> depends only on the concatenation
  of the chunks, never on where the chunk boundaries fall. The code does not have this
  property. Delivered as one chunk, the archive \<open>two_files\<close> gives its two entries.
  Delivered as two chunks that meet at the end of the first entry it gives the first entry
  and then fails: \<^verbatim>\<open>maybeReadMore\<close> pushes the chunk it has read and increments
  \<^verbatim>\<open>chunk\<close> as well, so that the index points behind the new chunk, which is never
  read. Delivered byte by byte it fails before the header is checked: a read that spans
  several chunks and ends at the end of the last one leaves \<^verbatim>\<open>chunk\<close> behind
  the retained chunks, and \<^verbatim>\<open>chunks[chunk].slice(0, cursor)\<close> reads
  \<^verbatim>\<open>undefined\<close>.
\<close>

theorem chunk_boundaries_matter:
  "decodeAssetBundleStream [two_files] None =
     ([\<lparr>out_name = lit ''a'', out_data = Blob [] (lit ''application/octet-stream'')\<rparr>,
       \<lparr>out_name = lit ''b'', out_data = Blob [] (lit ''application/octet-stream'')\<rparr>], None)
   \<and> decodeAssetBundleStream [take 36 two_files, drop 36 two_files] None =
     ([\<lparr>out_name = lit ''a'', out_data = Blob [] (lit ''application/octet-stream'')\<rparr>],
      Some UnexpectedEndOfFile)
   \<and> decodeAssetBundleStream (map (\<lambda>b. [b]) two_files) None = ([], Some TypeError)"
proof (intro conjI)
  show "decodeAssetBundleStream [two_files] None =
     ([\<lparr>out_name = lit ''a'', out_data = Blob [] (lit ''application/octet-stream'')\<rparr>,
       \<lparr>out_name = lit ''b'', out_data = Blob [] (lit ''application/octet-stream'')\<rparr>], None)"
    unfolding two_files_layouts
    by (subst decodeAssetBundleStream_layouts) (simp_all add: decoded_empty_file utf8_eval)
next
  have split: "take 36 two_files = HEAD @ layout (empty_file 0x61)"
    by (simp add: two_files_def HEAD_def layout_def empty_file_def Uint16Array_bytes
          Uint32Array_bytes sha1_empty)
  have "readBytes 7 None (sst [v] [] (HEAD @ layout (empty_file 0x61))) =
          Inr (ArrayBuffer HEAD, sst [v] HEAD (layout (empty_file 0x61)))" for v
    using readBytes_sst [of HEAD 7 "layout (empty_file 0x61)" None "[v]" "[]"] by simp
  then show "decodeAssetBundleStream [take 36 two_files, drop 36 two_files] None =
     ([\<lparr>out_name = lit ''a'', out_data = Blob [] (lit ''application/octet-stream'')\<rparr>],
      Some UnexpectedEndOfFile)"
    unfolding split
    by (simp add: decodeAssetBundleStream_def initial_sst lost_chunk decoded_empty_file utf8_eval)
next
  show "decodeAssetBundleStream (map (\<lambda>b. [b]) two_files) None = ([], Some TypeError)"
    by (simp add: two_files_def decodeAssetBundleStream_def readBytes_def readLoop.simps pull_def)
qed

section \<open>C4: truncated archives\<close>

text \<open>
  Claim C4: an archive truncated strictly inside an entry fails with
  \<open>UnexpectedEndOfFile\<close>, and an archive truncated at an entry boundary, offset 7
  included, ends cleanly with the entries before the cut. The code breaks both halves. Cut
  at offset 7, the archive is the header alone: after the header the loop reads an entry
  without asking whether the stream has ended, and the decoder fails with
  \<open>UnexpectedEndOfFile\<close> where the claim promises an empty sequence and no error. Cut at
  offset 16, behind the length field of the empty payload of the first file of
  \<open>two_files\<close> and before its digest, the decoder fails with a \<open>TypeError\<close>: the read of
  the length field consumed the chunk to its end, and the read of zero payload bytes slices
  \<^verbatim>\<open>chunks[chunk]\<close>, which is \<^verbatim>\<open>undefined\<close>.
\<close>

theorem truncation_failures:
  "decodeAssetBundleStream [take 7 two_files] None = ([], Some UnexpectedEndOfFile)
   \<and> decodeAssetBundleStream [take 16 two_files] None = ([], Some TypeError)"
  by (simp add: two_files_def decodeAssetBundleStream_def readBytes_def readLoop.simps pull_def
        decodeLoop.simps decodeEntry_def slice_of_def wrap_def every_equal_def HEAD_def
        Uint16Array_first_def Uint32Array_first_def maybeReadMore_def)

text \<open>
  The part of the claim that the code keeps: a cut at the end of an entry, behind at least
  one entry, leaves an archive of whole entries, which decodes to them without an error
  (\<open>decodeAssetBundleStream_layouts\<close>).
\<close>

section \<open>C5: header rejection\<close>

text \<open>
  Claim C5: every byte source whose first seven bytes differ from \<open>HEAD\<close> fails with
  \<open>InvalidHeader\<close>. The code does so when the first chunk holds the seven bytes
  (\<open>bad_header_in_first_chunk\<close> below), and not for every source: when the seventh
  byte is the last byte of a later chunk, \<^verbatim>\<open>readBytes(7, false)\<close> throws a
  \<open>TypeError\<close> before any byte is compared, as here for the bytes of \<^verbatim>\<open>BUNDLE2\<close>
  delivered as \<^verbatim>\<open>BUN\<close> and \<^verbatim>\<open>DLE2\<close>.
\<close>

theorem header_in_two_chunks:
  "decodeAssetBundleStream [[0x42, 0x55, 0x4e], [0x44, 0x4c, 0x45, 0x32]] None =
     ([], Some TypeError)"
  by (simp add: decodeAssetBundleStream_def readBytes_def readLoop.simps pull_def)

lemma bad_header_in_first_chunk:
  assumes "7 \<le> length c" and "take 7 c \<noteq> HEAD"
  shows "decodeAssetBundleStream (c # rest) options = ([], Some InvalidHeader)"
proof -
  have c: "c = take 7 c @ drop 7 c" by simp
  have len: "length (take 7 c) = 7" using assms(1) by simp
  have "\<not> every_equal HEAD (take 7 c)"
  proof
    assume "every_equal HEAD (take 7 c)"
    then obtain zs where zs: "take 7 c = HEAD @ zs"
      by (auto simp: every_equal_prefix prefix_def)
    from arg_cong [OF zs, of length] len have "zs = []" by simp
    with zs assms(2) show False by simp
  qed
  moreover have "\<exists>s. readBytes 7 None (sst rest [] c) = Inr (ArrayBuffer (take 7 c), s)"
  proof (cases "drop 7 c = []")
    case True
    then have "c = take 7 c" using c by simp
    then show ?thesis
      using readBytes_sst_last [of "take 7 c" 7 None rest "[]"] len assms(1)
      by (cases "take 7 c = []") auto
  next
    case False
    then show ?thesis
      using readBytes_sst [of "take 7 c" 7 "drop 7 c" None rest "[]"] len by simp
  qed
  ultimately show ?thesis
    by (auto simp: decodeAssetBundleStream_def initial_sst)
qed

section \<open>C7: the payload written\<close>

text \<open>
  Claim C7: the payload written, and its length prefix, are exactly the bytes supplied; for
  a \<^verbatim>\<open>Uint8Array\<close> the bytes of that view, not more and not fewer. The code takes
  \<^verbatim>\<open>data.buffer\<close>, the whole buffer under the view, whatever the offset and the length
  of the view: for the view of length 1 at offset 1 of the three bytes 1, 2, 3, whose only
  byte is 2, it writes the length 3 and the bytes 1, 2, 3, with their digest.
\<close>

theorem view_written_whole:
  "encodeAssetBundle [\<lparr>name = lit ''a'', type = None, data = Uint8Array [1, 2, 3] 1 1\<rparr>] =
     Inr (HEAD @ [1, 0, 0x61] @ [0, 0] @ [3, 0, 0, 0] @ [1, 2, 3] @ sha1 [1, 2, 3])
   \<and> view_bytes [1, 2, 3] 1 1 = [2]"
  by (simp add: encodeAssetBundle_def resolve_def utf8_eval Uint16Array_bytes Uint32Array_bytes
        view_bytes_def)

section \<open>C9: the media type\<close>

text \<open>
  Claim C9: the encoder writes the media type it is given, and a type field of length zero
  when none is given, for every payload shape, Blobs included; the decoder puts the default
  exactly when the stored length is zero. The decoder does (\<open>media\<close> in
  \<open>decodeEntry_layout\<close>). The encoder does not for Blobs: with no type given,
  \<^verbatim>\<open>type ??= await data.arrayBuffer()\<close> makes the content of the Blob the type, and the
  type field written is the twenty bytes of \<^verbatim>\<open>[object ArrayBuffer]\<close>; with a type
  given, the same expression makes the type string the buffer, and the encoder fails.
\<close>

theorem blob_type_field:
  "encodeAssetBundle [\<lparr>name = lit ''a'', type = None, data = Blob [1, 2] []\<rparr>] =
     Inr (HEAD @ [1, 0, 0x61] @ [20, 0] @ utf8_encode (lit ''[object ArrayBuffer]'')
            @ [2, 0, 0, 0] @ [1, 2] @ sha1 [1, 2])
   \<and> encodeAssetBundle
       [\<lparr>name = lit ''a'', type = Some (lit ''text/plain''), data = Blob [1, 2] []\<rparr>] =
     Inl (CouldNotConvert (lit ''a''))"
  by (simp add: encodeAssetBundle_def resolve_def utf8_eval Uint16Array_bytes Uint32Array_bytes
        Let_def)

section \<open>C8: field sizes\<close>




section \<open>C1: round trip\<close>

text \<open>
  Claim C1: for every list of entries with unique names, decoding what
  \<^verbatim>\<open>encodeAssetBundle\<close> returns gives back the names, the media types (the default for an
  empty or omitted one) and the payloads, in order. The code does so under conditions that
  the claim does not state. Stated for the code: for every list of files that is not empty,
  with distinct names, where each file has its payload given as a string, as an
  \<^verbatim>\<open>ArrayBuffer\<close> or as a \<^verbatim>\<open>Uint8Array\<close> that covers its whole buffer, a payload
  shorter than \<open>2 ^ 32\<close> bytes, a name and a media type shorter than 65536 bytes in UTF-8,
  a name and a media type that UTF-8 decoding gives back from their encoding (no lone
  surrogate, no leading byte order mark), and a media type that a Blob keeps as it is (its
  characters lie between U+0020 and U+007E and none is an upper-case letter), the encoder
  returns an archive, and the decoder, given that archive as one chunk, yields for each
  file, in order, its name and a Blob of its payload bytes with its media type, and ends
  without an error.
\<close>

theorem round_trip:
  assumes "files \<noteq> []" and "distinct (map name files)"
    and "\<forall>f \<in> set files. round_trips f"
  shows "\<exists>archive. encodeAssetBundle files = Inr archive
           \<and> decodeAssetBundleStream [archive] None = (map expected files, None)"
proof -
  from assms(3) have conv: "\<forall>f \<in> set files. convertible f"
    and fit: "\<forall>e \<in> set (map wire files). fits e"
    by (simp_all add: round_trips_wire)
  have "encodeAssetBundle files = Inr (HEAD @ concat (map layout (map wire files)))"
    using encodeAssetBundle_layouts [OF assms(2) conv] by (simp add: comp_def)
  moreover have "decodeAssetBundleStream [HEAD @ concat (map layout (map wire files))] None =
      (map expected files, None)"
    using decodeAssetBundleStream_layouts [OF fit, of None] assms(1,3)
    by (simp add: walk_round_trips)
  ultimately show ?thesis by blast
qed

text \<open>
  The property at the two files of the test of the repository, the second with a media
  type.
\<close>

theorem round_trip_witness:
  "\<exists>archive.
     encodeAssetBundle
       [\<lparr>name = lit ''test.txt'', type = None, data = JString (lit ''hello world'')\<rparr>,
        \<lparr>name = lit ''good-morning.txt'', type = Some (lit ''text/plain''),
         data = JString (lit ''good morning'')\<rparr>]
       = Inr archive
     \<and> decodeAssetBundleStream [archive] None =
        ([\<lparr>out_name = lit ''test.txt'',
           out_data = Blob (utf8_encode (lit ''hello world'')) (lit ''application/octet-stream'')\<rparr>,
          \<lparr>out_name = lit ''good-morning.txt'',
           out_data = Blob (utf8_encode (lit ''good morning'')) (lit ''text/plain'')\<rparr>],
         None)"
proof -
  have "round_trips \<lparr>name = lit ''test.txt'', type = None, data = JString (lit ''hello world'')\<rparr>"
    by (simp add: round_trips_def utf8_eval)
  moreover have "round_trips
      \<lparr>name = lit ''good-morning.txt'', type = Some (lit ''text/plain''),
         data = JString (lit ''good morning'')\<rparr>"
    by (simp add: round_trips_def utf8_eval blob_type_def ascii_lower_def)
  moreover have "lit ''test.txt'' \<noteq> lit ''good-morning.txt''"
    by (simp add: lit_def)
  ultimately show ?thesis
    using round_trip [of
      "[\<lparr>name = lit ''test.txt'', type = None, data = JString (lit ''hello world'')\<rparr>,
        \<lparr>name = lit ''good-morning.txt'', type = Some (lit ''text/plain''),
         data = JString (lit ''good morning'')\<rparr>]"]
    by (simp add: expected_def) (simp add: lit_def)
qed

text \<open>
  The claim as stated fails. For the empty list the encoder returns the header alone, and
  the decoder fails on it. For a name of 65536 bytes the length field written is 0, and the
  decoder reads an empty name, takes the first letters of the name for the length of the
  type and for the length of the payload, and fails. For a name that is a lone surrogate
  the round trip gives back U+FFFD. For the media type \<^verbatim>\<open>Text/Plain\<close> the Blob
  yielded has the type \<^verbatim>\<open>text/plain\<close>.
\<close>

theorem round_trip_counterexample:
  "(encodeAssetBundle [] = Inr HEAD
      \<and> decodeAssetBundleStream [HEAD] None = ([], Some UnexpectedEndOfFile))
   \<and> (encodeAssetBundle [\<lparr>name = replicate 65536 0x61, type = None, data = JString []\<rparr>] =
        Inr (HEAD @ [0, 0] @ replicate 65536 0x61 @ [0, 0] @ [0, 0, 0, 0] @ sha1 [])
      \<and> decodeAssetBundleStream
          [HEAD @ [0, 0] @ replicate 65536 0x61 @ [0, 0] @ [0, 0, 0, 0] @ sha1 []] None =
        ([], Some UnexpectedEndOfFile))
   \<and> (encodeAssetBundle [\<lparr>name = [0xD800], type = None, data = JString []\<rparr>] =
        Inr (HEAD @ [3, 0] @ [0xEF, 0xBF, 0xBD] @ [0, 0] @ [0, 0, 0, 0] @ sha1 [])
      \<and> decodeAssetBundleStream
          [HEAD @ [3, 0] @ [0xEF, 0xBF, 0xBD] @ [0, 0] @ [0, 0, 0, 0] @ sha1 []] None =
        ([\<lparr>out_name = [0xFFFD], out_data = Blob [] (lit ''application/octet-stream'')\<rparr>],
         None))
   \<and> (encodeAssetBundle
        [\<lparr>name = lit ''a'', type = Some (lit ''Text/Plain''), data = JString []\<rparr>] =
        Inr (HEAD @ [1, 0] @ [0x61] @ [10, 0] @ utf8_encode (lit ''Text/Plain'')
               @ [0, 0, 0, 0] @ sha1 [])
      \<and> decodeAssetBundleStream
          [HEAD @ [1, 0] @ [0x61] @ [10, 0] @ utf8_encode (lit ''Text/Plain'')
             @ [0, 0, 0, 0] @ sha1 []] None =
        ([\<lparr>out_name = lit ''a'', out_data = Blob [] (lit ''text/plain'')\<rparr>], None))"
proof -
  have "encodeAssetBundle [] = Inr HEAD"
    by (simp add: encodeAssetBundle_def)
  moreover have "encodeAssetBundle [\<lparr>name = [0xD800], type = None, data = JString []\<rparr>] =
      Inr (HEAD @ [3, 0] @ [0xEF, 0xBF, 0xBD] @ [0, 0] @ [0, 0, 0, 0] @ sha1 [])"
    using encode_lone_surrogate
    by (simp add: lone_surrogate_def layout_def replaced_def Uint16Array_bytes Uint32Array_bytes)
  moreover have "decodeAssetBundleStream
      [HEAD @ [3, 0] @ [0xEF, 0xBF, 0xBD] @ [0, 0] @ [0, 0, 0, 0] @ sha1 []] None =
      ([\<lparr>out_name = [0xFFFD], out_data = Blob [] (lit ''application/octet-stream'')\<rparr>], None)"
    using decode_replaced
    by (simp add: layout_def replaced_def Uint16Array_bytes Uint32Array_bytes)
  ultimately show ?thesis
    using encode_long_name decode_long_name encode_upper_case_type decode_upper_case_type
      decodeAssetBundleStream_HEAD [of None]
    by (simp only: long_name_def simp_thms)
qed

section \<open>C3: digest integrity\<close>

text \<open>
  Claim C3: in a valid archive, changing one byte of a payload makes decoding with
  \<^verbatim>\<open>verify\<close> true fail with \<open>HashMismatch\<close> naming that entry, and decoding with
  \<^verbatim>\<open>verify\<close> false succeed with all entries. The code does not do so for every
  delivery of the archive. \<open>three_files\<close> is a valid archive: in one chunk, with
  \<^verbatim>\<open>verify\<close> true, it gives its three entries. With the payload byte of \<open>b\<close>, at
  offset 45, changed from 0 to 1 and the bytes delivered as three chunks that end where the
  entries end, the decoder yields \<open>a\<close> and \<open>c\<close> and ends without an error, with
  \<^verbatim>\<open>verify\<close> true as with \<^verbatim>\<open>verify\<close> false: \<^verbatim>\<open>maybeReadMore\<close> pushes the
  chunk that holds \<open>b\<close> and increments \<^verbatim>\<open>chunk\<close> as well, so that the entry is
  never read, and neither is its digest checked nor is the entry yielded.
\<close>

theorem corrupted_entry_skipped:
  "decodeAssetBundleStream [three_files] (Some True) =
     ([\<lparr>out_name = lit ''a'', out_data = Blob [] (lit ''application/octet-stream'')\<rparr>,
       \<lparr>out_name = lit ''b'', out_data = Blob [0] (lit ''application/octet-stream'')\<rparr>,
       \<lparr>out_name = lit ''c'', out_data = Blob [] (lit ''application/octet-stream'')\<rparr>], None)
   \<and> decodeAssetBundleStream (entry_chunks (three_files[45 := 1])) (Some True) =
     ([\<lparr>out_name = lit ''a'', out_data = Blob [] (lit ''application/octet-stream'')\<rparr>,
       \<lparr>out_name = lit ''c'', out_data = Blob [] (lit ''application/octet-stream'')\<rparr>], None)
   \<and> decodeAssetBundleStream (entry_chunks (three_files[45 := 1])) (Some False) =
     ([\<lparr>out_name = lit ''a'', out_data = Blob [] (lit ''application/octet-stream'')\<rparr>,
       \<lparr>out_name = lit ''c'', out_data = Blob [] (lit ''application/octet-stream'')\<rparr>], None)"
  using three_files_one_chunk corrupted_entry_chunks_True corrupted_entry_chunks_False
  by (intro conjI)

text \<open>
  What the code keeps of the claim. When the changed archive reaches the decoder as one
  chunk, its entries are typed (the media type that the decoder makes of each is not the
  empty string) and SHA-1 tells the changed payload from the stored digest, decoding with
  \<^verbatim>\<open>verify\<close> true yields the entries before the changed one and fails with
  \<open>HashMismatch\<close> carrying its name, and decoding with \<^verbatim>\<open>verify\<close> false yields all
  entries. An entry that is not typed, as one whose type field is a byte order mark alone,
  fails the check with a \<open>TypeError\<close> (\<open>bom_type_not_typed\<close>).
\<close>

lemma digest_integrity_one_chunk:
  assumes "\<forall>e \<in> set es. valid e" and "k < length es" and "i < length (e_payload (es ! k))"
    and "\<not> every_equal (e_digest (es ! k)) (sha1 ((e_payload (es ! k))[i := b]))"
  shows "decodeAssetBundleStream [(archive es)[payload_offset es k + i := b]] (Some True) =
           (map decoded (take k es), Some (HashMismatch (utf8_decode (e_name (es ! k)))))
       \<and> decodeAssetBundleStream [(archive es)[payload_offset es k + i := b]] (Some False) =
           (map decoded (es[k := flipped (es ! k) i b]), None)"
proof -
  let ?e = "flipped (es ! k) i b"
  let ?es = "es[k := ?e]"
  have es': "?es = take k es @ ?e # drop (Suc k) es"
    using assms(2) by (simp add: upd_conv_take_nth_drop)
  have ek: "es ! k \<in> set es"
    using assms(2) by simp
  have fit: "\<forall>e \<in> set ?es. fits e"
    using assms(1) ek by (auto simp: valid_def dest!: set_update_subset_insert [THEN subsetD])
  have ne: "?es \<noteq> []"
    using assms(2) by auto
  have before: "\<forall>e \<in> set (take k es). check True e = None"
    using assms(1) by (auto simp: valid_def check_True dest: in_set_takeD)
  have bad: "check True ?e = Some (HashMismatch (utf8_decode (e_name (es ! k))))"
    using assms(1,4) ek by (simp add: check_True valid_def) (simp add: digest_ok_def flipped_def)
  have "walk True ?es = (map decoded (take k es), Some (HashMismatch (utf8_decode (e_name (es ! k)))))"
    unfolding es' using before bad by (rule walk_first_failure)
  moreover have "walk False ?es = (map decoded ?es, None)"
    by (simp add: walk_all_ok)
  ultimately show ?thesis
    using decode_archive [OF fit ne] archive_update [OF assms(2,3), of b] by simp
qed

section \<open>C10: the wrapper verifies\<close>

text \<open>
  Claim C10: \<^verbatim>\<open>decodeAssetBundle\<close> passes no options to the streaming decoder, so that
  \<^verbatim>\<open>verify\<close> is true, and every archive with an entry whose digest does not match its
  payload makes it fail with \<open>HashMismatch\<close>. The first half holds
  (\<open>wrapper_verifies_one_chunk\<close>, second part). The second does not hold for every
  delivery. In \<open>three_files\<close> with the byte at offset 45 changed, the digest of \<open>b\<close> does
  not match its payload: given as one chunk, the wrapper fails with \<open>HashMismatch\<close> for
  \<open>b\<close>. Given as a stream of three chunks that end where the entries end, the wrapper
  returns a Map of \<open>a\<close> and \<open>c\<close> and no error: the chunk that holds \<open>b\<close> is skipped
  by \<^verbatim>\<open>maybeReadMore\<close>.
\<close>

theorem wrapper_returns_map:
  "decodeAssetBundle [three_files[45 := 1]] = Inl (HashMismatch (lit ''b''))
   \<and> decodeAssetBundle (entry_chunks (three_files[45 := 1])) =
     Inr [(lit ''a'', Blob [] (lit ''application/octet-stream'')),
          (lit ''c'', Blob [] (lit ''application/octet-stream''))]"
proof -
  have "decodeAssetBundleStream [three_files[45 := 1]] None =
      decodeAssetBundleStream [three_files[45 := 1]] (Some True)"
    by (simp add: decodeAssetBundleStream_def)
  then have "decodeAssetBundle [three_files[45 := 1]] = Inl (HashMismatch (lit ''b''))"
    by (simp add: decodeAssetBundle_def corrupted_one_chunk)
  moreover have "lit ''a'' \<noteq> lit ''c''"
    by (simp add: lit_def)
  then have "decodeAssetBundle (entry_chunks (three_files[45 := 1])) =
     Inr [(lit ''a'', Blob [] (lit ''application/octet-stream'')),
          (lit ''c'', Blob [] (lit ''application/octet-stream''))]"
    by (simp add: decodeAssetBundle_def corrupted_entry_chunks_None)
  ultimately show ?thesis by simp
qed

text \<open>
  What the code keeps of the claim: for an archive of entries that fit their length fields
  and are typed, given as one chunk, an entry whose digest does not match makes the wrapper
  fail with \<open>HashMismatch\<close> carrying the name of the first such entry; and for every
  input the wrapper returns what the streaming decoder gives with \<^verbatim>\<open>verify\<close> true.
\<close>

lemma wrapper_verifies_one_chunk:
  assumes "\<forall>e \<in> set es. fits e \<and> typed e" and "\<exists>e \<in> set es. \<not> digest_ok e"
  shows "(\<exists>e \<in> set es. \<not> digest_ok e
            \<and> decodeAssetBundle [archive es] = Inl (HashMismatch (utf8_decode (e_name e))))
       \<and> (\<forall>buffer. decodeAssetBundle buffer =
            (case decodeAssetBundleStream buffer (Some True) of
               (files, Some e) \<Rightarrow> Inl e
             | (files, None) \<Rightarrow>
                 Inr (foldl (\<lambda>map file. AList.update (out_name file) (out_data file) map)
                        [] files)))"
proof
  from assms(2) obtain pre e post
    where es: "es = pre @ e # post" and bad: "\<not> digest_ok e"
      and good: "\<forall>p \<in> set pre. \<not> \<not> digest_ok p"
    using split_list_first_prop [of es "\<lambda>e. \<not> digest_ok e"] by blast
  from assms(1) good bad
  have "decodeAssetBundle [archive (pre @ e # post)] = Inl (HashMismatch (utf8_decode (e_name e)))"
    unfolding es by (intro decodeAssetBundle_first_mismatch) simp_all
  with es bad show "\<exists>e \<in> set es. \<not> digest_ok e
      \<and> decodeAssetBundle [archive es] = Inl (HashMismatch (utf8_decode (e_name e)))"
    by auto
next
  show "\<forall>buffer. decodeAssetBundle buffer =
            (case decodeAssetBundleStream buffer (Some True) of
               (files, Some e) \<Rightarrow> Inl e
             | (files, None) \<Rightarrow>
                 Inr (foldl (\<lambda>map file. AList.update (out_name file) (out_data file) map)
                        [] files))"
    by (simp add: decodeAssetBundle_def decodeAssetBundleStream_def)
qed

lemma wrapper_verifies_one_chunk_example:
  "decodeAssetBundle
     [archive [\<lparr>e_name = [0x61], e_type = [], e_payload = [1], e_digest = sha1 [0]\<rparr>]] =
   Inl (HashMismatch (lit ''a''))"
proof -
  let ?e = "\<lparr>e_name = [0x61], e_type = [], e_payload = [1], e_digest = sha1 [0]\<rparr>"
  have differ: "\<not> every_equal (sha1 [0]) (sha1 [1])"
    by (simp add: every_equal_prefix sha1_byte0 sha1_byte1)
  have h1: "\<forall>e \<in> set [?e]. fits e \<and> typed e"
    by (simp add: fits_def typed_def media_def)
  have h2: "\<exists>e \<in> set [?e]. \<not> digest_ok e"
    using differ by (simp add: digest_ok_def)
  from wrapper_verifies_one_chunk [OF h1 h2]
  have "\<exists>e \<in> set [?e]. \<not> digest_ok e
      \<and> decodeAssetBundle [archive [?e]] = Inl (HashMismatch (utf8_decode (e_name e)))"
    by (rule conjunct1)
  then show ?thesis
    by (simp add: utf8_eval)
qed

end
